theory Spec2Isabelle
  imports Complex_Main "HOL-Library.Word" "HOL-Library.Log_Nat"
begin

section \<open>The joint sensor publisher of \<^verbatim>\<open>mujoco_sim_module\<close>\<close>

text \<open>
  The development follows \<^verbatim>\<open>joint_sensor_publisher.cc\<close>: \<^verbatim>\<open>CheckFrequency\<close>,
  \<^verbatim>\<open>RegisterSensorAddr\<close>, \<^verbatim>\<open>Initialize\<close> and \<^verbatim>\<open>PublishSensorData\<close>.
  Unsigned 32-bit integers are \<open>32 word\<close>. A \<^verbatim>\<open>double\<close> is the rational number it denotes;
  every arithmetic operation on doubles is the exact operation followed by a rounding
  operator \<open>rnd\<close>, which is a parameter of the model. The code is the model at
  \<open>rnd = binary64\<close>, IEEE-754 round-to-nearest-even with a 53 bit significand: every statement
  about the code is a statement at \<open>binary64\<close>. The second rounding, \<open>exact\<close>, does not round
  at all. It is the arithmetic in which the specification describes the divider (an interval
  base that is an exact rational), and it is not an arithmetic the code can run in: in it
  95 Hz passes the frequency check, which the code rejects, and the divider emits at tick
  100 at 70 Hz, where the code emits at tick 101. It serves to state the reference divider
  and to prove the cases in which no operation of the code rounds.
\<close>

subsection \<open>Doubles\<close>

type_synonym rounding = "rat \<Rightarrow> rat"

definition exact :: rounding where
  "exact x = x"

definition round_ties_even :: "rat \<Rightarrow> int" where
  "round_ties_even x =
     (let n = \<lfloor>x\<rfloor>; r = x - of_int n
      in if r < 1 / 2 then n
         else if 1 / 2 < r then n + 1
         else if even n then n else n + 1)"

text \<open>\<open>ilog2 x\<close> is \<open>\<lfloor>log\<^sub>2 x\<rfloor>\<close> for a positive rational, from the bit lengths of numerator
  and denominator.\<close>

definition ilog2 :: "rat \<Rightarrow> int" where
  "ilog2 x =
     (let (p, q) = quotient_of x; e = bitlen p - bitlen q
      in if 2 powi e \<le> x then e else e - 1)"

text \<open>Round to the nearest double, ties to even, subnormals included. Overflow to infinity
  is not part of the model: no value of this program comes near \<open>2\<^sup>1\<^sup>0\<^sup>2\<^sup>4\<close>.\<close>

definition binary64 :: rounding where
  "binary64 x =
     (if x = 0 then 0
      else let e = max (ilog2 \<bar>x\<bar>) (- 1022); u = 2 powi (e - 52)
           in of_int (round_ties_even (x / u)) * u)"

subsection \<open>Errors\<close>

text \<open>The three \<^verbatim>\<open>AIMRT_CHECK_ERROR_THROW\<close> sites of setup, under the names of the
  specification: the frequency above \<^verbatim>\<open>MAX_SIM_FRQ\<close> (with the frequency), the interval error
  above \<^verbatim>\<open>kError\<close> (with the frequency and \<^verbatim>\<open>kError\<close>), an invalid sensor name (with the name
  and its kind), and the failed registration of the publish type.\<close>

datatype sensor_kind = Position | Velocity

datatype error =
    ExceedsTickRate "32 word"
  | UnachievablePrecision "32 word" rat
  | UnknownSensor string sensor_kind
  | RegisterPublishTypeFailed

text \<open>A run of setup either throws one of these or, where the code divides an integer by
  zero, has no defined behaviour.\<close>

datatype failure = Thrown error | DivisionByZero

subsection \<open>\<^verbatim>\<open>CheckFrequency\<close>\<close>

definition MAX_SIM_FRQ :: "32 word" where
  "MAX_SIM_FRQ = 1000"

definition kError :: "rounding \<Rightarrow> rat" where
  "kError rnd = rnd (5 / 100)"

text \<open>The conversion of a \<^verbatim>\<open>uint32_t\<close> to \<^verbatim>\<open>double\<close> is exact.\<close>

definition to_double :: "32 word \<Rightarrow> rat" where
  "to_double w = of_nat (unat w)"

text \<open>Returns the value assigned to \<^verbatim>\<open>avg_interval_base_\<close>. For \<^verbatim>\<open>channel_frq_ = 0\<close> the
  double division gives infinity without a trap, and the next statement,
  \<^verbatim>\<open>MAX_SIM_FRQ % channel_frq_\<close>, divides an integer by zero.\<close>

definition CheckFrequency :: "rounding \<Rightarrow> 32 word \<Rightarrow> failure + rat" where
  "CheckFrequency rnd channel_frq =
     (if \<not> channel_frq \<le> MAX_SIM_FRQ then Inl (Thrown (ExceedsTickRate channel_frq))
      else if channel_frq = 0 then Inl DivisionByZero
      else
        let avg_interval_base = rnd (to_double MAX_SIM_FRQ / to_double channel_frq)
        in if MAX_SIM_FRQ mod channel_frq = 0 then Inr avg_interval_base
           else
             let lower_interval = MAX_SIM_FRQ div channel_frq;
                 upper_interval = lower_interval + 1;
                 lower_error =
                   rnd (\<bar>rnd (to_double lower_interval - avg_interval_base)\<bar> / avg_interval_base);
                 upper_error =
                   rnd (\<bar>rnd (to_double upper_interval - avg_interval_base)\<bar> / avg_interval_base)
             in if lower_error \<le> kError rnd \<and> upper_error \<le> kError rnd
                then Inr avg_interval_base
                else Inl (Thrown (UnachievablePrecision channel_frq (kError rnd))))"

subsection \<open>The publisher's state\<close>

text \<open>\<^verbatim>\<open>Options::Joint\<close>, as decoded from the configuration.\<close>

record Joint =
  name :: string
  bind_joint :: string
  bind_jointpos_sensor :: string
  bind_jointvel_sensor :: string

text \<open>Modelled from the spec: the header that declares \<^verbatim>\<open>SensorAddrGroup\<close>,
  \<^verbatim>\<open>SensorStateGroup\<close> and the data members is not among the sources. The slot indices are
  signed 32-bit integers with \<open>-1\<close> for "not bound" (the code tests them with \<^verbatim>\<open>>= 0\<close>), the
  tick counter is an unsigned 32-bit integer, the threshold and its increment are doubles,
  and counter and threshold start at 0 with empty vectors. The members are written without
  their trailing underscore.\<close>

record SensorAddrGroup =
  jointpos_addr :: int
  jointvel_addr :: int

record SensorStateGroup =
  jointpos_state :: rat
  jointvel_state :: rat

text \<open>Modelled from the spec: the data members of \<^verbatim>\<open>JointSensorPublisher\<close>, declared in
  the same missing header, with the types given above.\<close>

record publisher =
  channel_frq :: "32 word"
  avg_interval_base :: rat
  avg_interval :: rat
  conter :: "32 word"
  joint_num :: nat
  sensor_addr_vec :: "SensorAddrGroup list"
  name_vec :: "string list"

text \<open>Modelled from the spec: the members' initial values, also in the missing header. The
  specification starts counter and threshold at 0; \<open>frq\<close> is the channel frequency set
  before initialisation, and the interval base is overwritten by \<^verbatim>\<open>CheckFrequency\<close>.\<close>

definition new_publisher :: "32 word \<Rightarrow> publisher" where
  "new_publisher frq =
     \<lparr>channel_frq = frq, avg_interval_base = 1, avg_interval = 0, conter = 0,
      joint_num = 0, sensor_addr_vec = [], name_vec = []\<rparr>"

subsection \<open>\<^verbatim>\<open>RegisterSensorAddr\<close>\<close>

text \<open>\<open>mj_name2id\<close> stands for \<^verbatim>\<open>mj_name2id(m_, mjOBJ_SENSOR, name)\<close>: the id of the sensor, or
  \<open>-1\<close> when the model has no sensor of that name. Its \<^verbatim>\<open>int\<close> result initialises a
  \<^verbatim>\<open>const uint32_t\<close>, so it is converted modulo \<open>2\<^sup>3\<^sup>2\<close>, and so is the \<open>-1\<close> of an empty name.
  The tests \<^verbatim>\<open>pos_idx < 0\<close> and \<^verbatim>\<open>vel_idx < 0\<close> compare these unsigned values with 0. Storing
  the index into the signed field reads the same 32 bits as two's complement.\<close>

definition sensor_idx :: "(string \<Rightarrow> int) \<Rightarrow> string \<Rightarrow> 32 word" where
  "sensor_idx mj_name2id sensor = (if sensor \<noteq> [] then word_of_int (mj_name2id sensor) else word_of_int (- 1))"

fun RegisterSensorAddr_loop ::
  "(string \<Rightarrow> int) \<Rightarrow> Joint list \<Rightarrow> publisher \<Rightarrow> failure + publisher" where
  "RegisterSensorAddr_loop mj_name2id [] p = Inr p"
| "RegisterSensorAddr_loop mj_name2id (joint # joints) p =
     (let pos_idx = sensor_idx mj_name2id (bind_jointpos_sensor joint);
          vel_idx = sensor_idx mj_name2id (bind_jointvel_sensor joint)
      in if bind_jointpos_sensor joint \<noteq> [] \<and> pos_idx < 0
         then Inl (Thrown (UnknownSensor (bind_jointpos_sensor joint) Position))
         else if bind_jointvel_sensor joint \<noteq> [] \<and> vel_idx < 0
         then Inl (Thrown (UnknownSensor (bind_jointvel_sensor joint) Velocity))
         else RegisterSensorAddr_loop mj_name2id joints
                (p\<lparr>sensor_addr_vec := sensor_addr_vec p @
                      [\<lparr>jointpos_addr = sint pos_idx, jointvel_addr = sint vel_idx\<rparr>],
                   name_vec := name_vec p @ [name joint]\<rparr>))"

definition RegisterSensorAddr ::
  "(string \<Rightarrow> int) \<Rightarrow> Joint list \<Rightarrow> publisher \<Rightarrow> failure + publisher" where
  "RegisterSensorAddr mj_name2id joints p =
     (case RegisterSensorAddr_loop mj_name2id joints p of
        Inl e \<Rightarrow> Inl e
      | Inr p' \<Rightarrow> Inr (p'\<lparr>joint_num := length (sensor_addr_vec p')\<rparr>))"

subsection \<open>\<^verbatim>\<open>Initialize\<close>\<close>

text \<open>\<open>joints\<close> is the decoded option node, \<open>channel_frq\<close> the frequency set before
  initialisation, \<open>ret\<close> the result of \<^verbatim>\<open>RegisterPublishType\<close>.\<close>

definition Initialize ::
  "rounding \<Rightarrow> (string \<Rightarrow> int) \<Rightarrow> bool \<Rightarrow> 32 word \<Rightarrow> Joint list \<Rightarrow> failure + publisher" where
  "Initialize rnd mj_name2id ret frq joints =
     (case CheckFrequency rnd frq of
        Inl e \<Rightarrow> Inl e
      | Inr base \<Rightarrow>
          (case RegisterSensorAddr mj_name2id joints ((new_publisher frq)\<lparr>avg_interval_base := base\<rparr>) of
             Inl e \<Rightarrow> Inl e
           | Inr p \<Rightarrow> if ret then Inr p else Inl (Thrown RegisterPublishTypeFailed)))"

subsection \<open>\<^verbatim>\<open>PublishSensorData\<close>\<close>

definition ONE_MB :: "32 word" where
  "ONE_MB = 1024 * 1024"

text \<open>The published \<^verbatim>\<open>JointState\<close>: its \<^verbatim>\<open>data\<close> records (name, position, velocity) in the
  order they were added.\<close>

type_synonym JointState = "(string \<times> rat \<times> rat) list"

text \<open>The first loop: the snapshot of \<^verbatim>\<open>d_->sensordata\<close>, here a function of the slot.\<close>

definition read_state_array :: "(nat \<Rightarrow> rat) \<Rightarrow> publisher \<Rightarrow> SensorStateGroup list" where
  "read_state_array sensordata p =
     map (\<lambda>i. let addr = sensor_addr_vec p ! i
               in \<lparr>jointpos_state =
                     (if 0 \<le> jointpos_addr addr then sensordata (nat (jointpos_addr addr)) else 0),
                   jointvel_state =
                     (if 0 \<le> jointvel_addr addr then sensordata (nat (jointvel_addr addr)) else 0)\<rparr>)
       [0..<joint_num p]"

text \<open>The task handed to the executor: the message it builds and publishes.\<close>

definition build_state :: "publisher \<Rightarrow> SensorStateGroup list \<Rightarrow> JointState" where
  "build_state p state_array =
     map (\<lambda>i. (name_vec p ! i, jointpos_state (state_array ! i), jointvel_state (state_array ! i)))
       [0..<joint_num p]"

text \<open>One call: the new state and the message handed over, if any. \<^verbatim>\<open>conter_++\<close> increments
  (and wraps) whatever the comparison says.\<close>

definition PublishSensorData ::
  "rounding \<Rightarrow> (nat \<Rightarrow> rat) \<Rightarrow> publisher \<Rightarrow> publisher \<times> JointState option" where
  "PublishSensorData rnd sensordata p =
     (let p1 = p\<lparr>conter := conter p + 1\<rparr>
      in if to_double (conter p) < avg_interval p then (p1, None)
         else
           let state_array = read_state_array sensordata p1;
               state = build_state p1 state_array;
               p2 = p1\<lparr>avg_interval := rnd (avg_interval p1 + avg_interval_base p1)\<rparr>;
               p3 = (if ONE_MB < conter p2
                     then p2\<lparr>avg_interval := rnd (avg_interval p2 - to_double ONE_MB),
                             conter := conter p2 - ONE_MB\<rparr>
                     else p2)
           in (p3, Some state))"

text \<open>The simulation loop calls \<^verbatim>\<open>PublishSensorData\<close> once per tick; \<open>d n\<close> is the sensor
  buffer at tick \<open>n\<close>.\<close>

primrec ticks :: "rounding \<Rightarrow> (nat \<Rightarrow> nat \<Rightarrow> rat) \<Rightarrow> publisher \<Rightarrow> nat \<Rightarrow> publisher" where
  "ticks rnd d p 0 = p"
| "ticks rnd d p (Suc n) = fst (PublishSensorData rnd (d n) (ticks rnd d p n))"

definition published ::
  "rounding \<Rightarrow> (nat \<Rightarrow> nat \<Rightarrow> rat) \<Rightarrow> publisher \<Rightarrow> nat \<Rightarrow> JointState option" where
  "published rnd d p n = snd (PublishSensorData rnd (d n) (ticks rnd d p n))"

definition emits :: "rounding \<Rightarrow> (nat \<Rightarrow> nat \<Rightarrow> rat) \<Rightarrow> publisher \<Rightarrow> nat \<Rightarrow> bool" where
  "emits rnd d p n = (published rnd d p n \<noteq> None)"

subsection \<open>The reference divider\<close>





subsection \<open>What a binding and a snapshot hold\<close>

text \<open>The table entry that \<^verbatim>\<open>RegisterSensorAddr\<close> stores for a joint, and the value the
  snapshot loop reads for a stored index.\<close>

definition binding_entry :: "(string \<Rightarrow> int) \<Rightarrow> Joint \<Rightarrow> SensorAddrGroup" where
  "binding_entry mj_name2id joint =
     \<lparr>jointpos_addr = sint (sensor_idx mj_name2id (bind_jointpos_sensor joint)),
      jointvel_addr = sint (sensor_idx mj_name2id (bind_jointvel_sensor joint))\<rparr>"

definition slot_value :: "(nat \<Rightarrow> rat) \<Rightarrow> int \<Rightarrow> rat" where
  "slot_value sensordata addr = (if 0 \<le> addr then sensordata (nat addr) else 0)"

subsection \<open>The divider in closed form\<close>

text \<open>With an interval base \<open>b \<ge> 1\<close> and exact arithmetic, \<open>emitted_before b n\<close> is the number
  of emissions among the first \<open>n\<close> ticks.\<close>

definition emitted_before :: "rat \<Rightarrow> nat \<Rightarrow> int" where
  "emitted_before b n = \<lfloor>(of_nat n - 1) / b\<rfloor> + 1"

text \<open>What holds of the renormalised counters after \<open>n\<close> ticks of exact arithmetic: they
  are the unbounded ones less a multiple of \<open>2\<^sup>2\<^sup>0\<close>, and they stay in a fixed range.\<close>

definition divider_inv :: "rat \<Rightarrow> nat \<Rightarrow> publisher \<Rightarrow> bool" where
  "divider_inv b n p =
     (avg_interval_base p = b \<and> unat (conter p) \<le> 1049576 \<and> avg_interval p \<le> 1048575 + b \<and>
      (\<exists>k. unat (conter p) + k * 1048576 = n \<and>
           avg_interval p + of_nat (k * 1048576) = of_int (emitted_before b n) * b))"

subsection \<open>Roundings and the rounded divider\<close>

text \<open>What the proofs about the divider need of a rounding: on the range of the threshold
  it is within \<open>2\<^sup>-\<^sup>3\<^sup>2\<close> of the exact result, and it leaves integers alone.\<close>

definition faithful :: "rounding \<Rightarrow> bool" where
  "faithful rnd =
     ((\<forall>x. \<bar>x\<bar> < 4194304 \<longrightarrow> \<bar>rnd x - x\<bar> \<le> 1 / 4294967296) \<and>
      (\<forall>n :: int. \<bar>n\<bar> < 4194304 \<longrightarrow> rnd (of_int n) = of_int n))"

text \<open>The phase of the specification, threshold less tick count, and what holds of the
  counters after any number of ticks under such a rounding.\<close>

definition phase :: "publisher \<Rightarrow> rat" where
  "phase p = avg_interval p - to_double (conter p)"

definition rounded_inv :: "rat \<Rightarrow> publisher \<Rightarrow> bool" where
  "rounded_inv b p =
     (avg_interval_base p = b \<and> unat (conter p) \<le> 1049578 \<and> - 1 < phase p \<and>
      avg_interval p \<le> 1048576 + b)"

subsection \<open>The drift of the rounded threshold\<close>



section \<open>Frequency validation\<close>

lemma CheckFrequency_inexact:
  assumes "frq \<le> MAX_SIM_FRQ" "frq \<noteq> 0" "MAX_SIM_FRQ mod frq \<noteq> 0"
    and "to_double frq = f"
    and "to_double (MAX_SIM_FRQ div frq) = lo"
    and "to_double (MAX_SIM_FRQ div frq + 1) = up"
    and "rnd (1000 / f) = b"
    and "rnd (lo - b) = dl" "rnd (up - b) = du"
    and "rnd (\<bar>dl\<bar> / b) = el" "rnd (\<bar>du\<bar> / b) = eu"
  shows "CheckFrequency rnd frq =
    (if el \<le> kError rnd \<and> eu \<le> kError rnd then Inr b
     else Inl (Thrown (UnachievablePrecision frq (kError rnd))))"
proof -
  have "to_double MAX_SIM_FRQ = 1000"
    by (simp add: to_double_def MAX_SIM_FRQ_def)
  with assms show ?thesis
    by (simp add: CheckFrequency_def Let_def)
qed

lemma CheckFrequency_divisor:
  assumes "frq \<le> MAX_SIM_FRQ" "frq \<noteq> 0" "MAX_SIM_FRQ mod frq = 0" "to_double frq = f"
  shows "CheckFrequency rnd frq = Inr (rnd (1000 / f))"
proof -
  have "to_double MAX_SIM_FRQ = 1000"
    by (simp add: to_double_def MAX_SIM_FRQ_def)
  with assms show ?thesis
    by (simp add: CheckFrequency_def Let_def)
qed

lemma kError_binary64: "kError binary64 = 3602879701896397 / 72057594037927936"
  unfolding kError_def by code_simp

lemma words_333:
  "(333::32 word) \<le> MAX_SIM_FRQ" "(333::32 word) \<noteq> 0" "MAX_SIM_FRQ mod (333::32 word) \<noteq> 0"
  "to_double 333 = 333" "to_double (MAX_SIM_FRQ div 333) = 3"
  "to_double (MAX_SIM_FRQ div 333 + 1) = 4"
  by (simp_all add: MAX_SIM_FRQ_def to_double_def)

lemma words_7:
  "(7::32 word) \<le> MAX_SIM_FRQ" "(7::32 word) \<noteq> 0" "MAX_SIM_FRQ mod (7::32 word) \<noteq> 0"
  "to_double 7 = 7" "to_double (MAX_SIM_FRQ div 7) = 142"
  "to_double (MAX_SIM_FRQ div 7 + 1) = 143"
  by (simp_all add: MAX_SIM_FRQ_def to_double_def)

lemma base_333: "binary64 (1000 / 333) = 3381080801329201 / 1125899906842624"
  by code_simp

lemma base_7: "binary64 (1000 / 7) = 5026338869833143 / 35184372088832"
  by code_simp

lemma CheckFrequency_binary64_333:
  "CheckFrequency binary64 333 = Inl (Thrown (UnachievablePrecision 333 (kError binary64)))"
proof -
  have dl: "binary64 (3 - 3381080801329201 / 1125899906842624)
      = - (3381080801329 / 1125899906842624)"
    by code_simp
  have du: "binary64 (4 - 3381080801329201 / 1125899906842624)
      = 1122518826041295 / 1125899906842624"
    by code_simp
  have el: "binary64 (\<bar>- (3381080801329 / 1125899906842624)\<bar> / (3381080801329201 / 1125899906842624))
      = 2305843009213557 / 2305843009213693952"
    by code_simp
  have eu: "binary64 (\<bar>1122518826041295 / 1125899906842624\<bar> / (3381080801329201 / 1125899906842624))
      = 1495195076287005 / 4503599627370496"
    by code_simp
  have "\<not> (1495195076287005 / 4503599627370496 :: rat) \<le> kError binary64"
    by (simp add: kError_binary64)
  then show ?thesis
    unfolding CheckFrequency_inexact [OF words_333 base_333 dl du el eu] by simp
qed

lemma CheckFrequency_binary64_7: "CheckFrequency binary64 7 = Inr (binary64 (1000 / 7))"
proof -
  have dl: "binary64 (142 - 5026338869833143 / 35184372088832)
      = - (30158033218999 / 35184372088832)"
    by code_simp
  have du: "binary64 (143 - 5026338869833143 / 35184372088832)
      = 5026338869833 / 35184372088832"
    by code_simp
  have el: "binary64 (\<bar>- (30158033218999 / 35184372088832)\<bar> / (5026338869833143 / 35184372088832))
      = 3458764513820557 / 576460752303423488"
    by code_simp
  have eu: "binary64 (\<bar>5026338869833 / 35184372088832\<bar> / (5026338869833143 / 35184372088832))
      = 4611686018427257 / 4611686018427387904"
    by code_simp
  show ?thesis
    unfolding CheckFrequency_inexact [OF words_7 base_7 dl du el eu] kError_binary64 base_7
    by simp
qed

lemma CheckFrequency_exact_333:
  "CheckFrequency exact 333 = Inl (Thrown (UnachievablePrecision 333 (kError exact)))"
  unfolding CheckFrequency_inexact [OF words_333 refl refl refl refl refl]
  by (simp add: exact_def kError_def)

lemma CheckFrequency_exact_7: "CheckFrequency exact 7 = Inr (1000 / 7)"
  unfolding CheckFrequency_inexact [OF words_7 refl refl refl refl refl]
  by (simp add: exact_def kError_def)

text \<open>C5, as the claim states it, fails: with tick rate 1000 and target frequency 333 the
  check throws. The interval base is the double nearest to \<open>1000 / 333\<close>, the error of the
  lower interval 3 is about 0.001, but the error of the upper interval 4 is about 0.332,
  above \<^verbatim>\<open>kError\<close>.\<close>

theorem CheckFrequency_333_counterexample:
  "CheckFrequency binary64 333
     = Inl (Thrown (UnachievablePrecision 333 (3602879701896397 / 72057594037927936)))"
  using CheckFrequency_binary64_333 by (simp add: kError_binary64)

text \<open>C5, amended: frequency validation with tick rate 1000 and target frequency 333 computes
  an interval base of approximately 3.003 and then fails with \<open>UnachievablePrecision\<close>, in double
  arithmetic and in exact arithmetic alike.\<close>

theorem CheckFrequency_333_unachievable:
  "CheckFrequency binary64 333 = Inl (Thrown (UnachievablePrecision 333 (kError binary64)))
   \<and> CheckFrequency exact 333 = Inl (Thrown (UnachievablePrecision 333 (kError exact)))
   \<and> \<bar>binary64 (1000 / 333) - 3003 / 1000\<bar> < 1 / 100000"
  by (simp add: CheckFrequency_binary64_333 CheckFrequency_exact_333 base_333)

text \<open>C6, as the claim states it, fails: with tick rate 1000 and target frequency 7 the check
  returns the interval base, the double nearest to \<open>1000 / 7\<close>.\<close>

theorem CheckFrequency_7_counterexample:
  "CheckFrequency binary64 7 = Inr (5026338869833143 / 35184372088832)"
  using CheckFrequency_binary64_7 by (simp add: base_7)

text \<open>C6, amended: frequency validation with tick rate 1000 and target frequency 7 succeeds
  with an interval base of approximately 142.857 (the errors of the intervals 142 and 143 are
  about 0.006 and 0.001, both within \<^verbatim>\<open>kError\<close>), in double arithmetic and in exact arithmetic
  alike.\<close>

theorem CheckFrequency_7_accepted:
  "CheckFrequency binary64 7 = Inr (binary64 (1000 / 7))
   \<and> CheckFrequency exact 7 = Inr (1000 / 7)
   \<and> \<bar>binary64 (1000 / 7) - 142857 / 1000\<bar> < 1 / 1000"
  by (simp add: CheckFrequency_binary64_7 CheckFrequency_exact_7) (simp add: base_7)

text \<open>C7: every target frequency above the ceiling of 1000 Hz is rejected with
  \<open>ExceedsTickRate\<close>, whatever the rounding, and initialisation aborts with that error.\<close>

theorem CheckFrequency_exceeds_tick_rate:
  assumes "MAX_SIM_FRQ < frq"
  shows "CheckFrequency rnd frq = Inl (Thrown (ExceedsTickRate frq))
    \<and> Initialize rnd mj_name2id ret frq joints = Inl (Thrown (ExceedsTickRate frq))"
  using assms by (simp add: CheckFrequency_def Initialize_def not_le)

theorem CheckFrequency_exceeds_tick_rate_witness:
  "MAX_SIM_FRQ < 1001
   \<and> CheckFrequency binary64 1001 = Inl (Thrown (ExceedsTickRate 1001))
   \<and> Initialize binary64 (\<lambda>s. - 1) True 1001 [] = Inl (Thrown (ExceedsTickRate 1001))"
proof -
  have h: "MAX_SIM_FRQ < 1001"
    by (simp add: MAX_SIM_FRQ_def)
  show ?thesis
    using h CheckFrequency_exceeds_tick_rate [OF h, of binary64 "\<lambda>s. - 1" True "[]"] by simp
qed

text \<open>C10: the check has no branch for a target frequency of 0. It passes the ceiling test
  and reaches \<^verbatim>\<open>MAX_SIM_FRQ % channel_frq_\<close>, an integer division by zero, instead of throwing;
  for every other frequency no division by zero occurs.\<close>

theorem CheckFrequency_zero_unchecked:
  "CheckFrequency rnd 0 = Inl DivisionByZero
   \<and> (\<forall>e. CheckFrequency rnd 0 \<noteq> Inl (Thrown e))
   \<and> ((CheckFrequency rnd frq = Inl DivisionByZero) = (frq = 0))
   \<and> ((\<exists>f. CheckFrequency rnd frq = Inl (Thrown (ExceedsTickRate f))) = (MAX_SIM_FRQ < frq))"
  by (auto simp add: CheckFrequency_def Let_def MAX_SIM_FRQ_def not_le split: if_splits)

section \<open>Binding and snapshots\<close>

lemma sensor_idx_not_negative: "\<not> sensor_idx mj_name2id sensor < 0"
  by simp

lemma RegisterSensorAddr_loop_Inr:
  "RegisterSensorAddr_loop mj joints p =
     Inr (p\<lparr>sensor_addr_vec := sensor_addr_vec p @ map (binding_entry mj) joints,
            name_vec := name_vec p @ map name joints\<rparr>)"
  by (induction joints arbitrary: p) (simp_all add: Let_def binding_entry_def)

lemma RegisterSensorAddr_Inr:
  "RegisterSensorAddr mj joints p =
     Inr (p\<lparr>sensor_addr_vec := sensor_addr_vec p @ map (binding_entry mj) joints,
            name_vec := name_vec p @ map name joints,
            joint_num := length (sensor_addr_vec p) + length joints\<rparr>)"
  by (simp add: RegisterSensorAddr_def RegisterSensorAddr_loop_Inr)

lemma Initialize_eq:
  "Initialize rnd mj ret frq joints =
     (case CheckFrequency rnd frq of
        Inl e \<Rightarrow> Inl e
      | Inr base \<Rightarrow>
          if ret
          then Inr \<lparr>channel_frq = frq, avg_interval_base = base, avg_interval = 0, conter = 0,
                    joint_num = length joints, sensor_addr_vec = map (binding_entry mj) joints,
                    name_vec = map name joints\<rparr>
          else Inl (Thrown RegisterPublishTypeFailed))"
  by (simp add: Initialize_def RegisterSensorAddr_Inr new_publisher_def split: sum.splits)

lemma Initialize_Inr:
  assumes "Initialize rnd mj ret frq joints = Inr p"
  shows "\<exists>base. CheckFrequency rnd frq = Inr base \<and> ret \<and>
     p = \<lparr>channel_frq = frq, avg_interval_base = base, avg_interval = 0, conter = 0,
          joint_num = length joints, sensor_addr_vec = map (binding_entry mj) joints,
          name_vec = map name joints\<rparr>"
  using assms by (auto simp add: Initialize_eq split: sum.splits if_splits)

lemma PublishSensorData_tables:
  "sensor_addr_vec (fst (PublishSensorData rnd sd p)) = sensor_addr_vec p"
  "name_vec (fst (PublishSensorData rnd sd p)) = name_vec p"
  "joint_num (fst (PublishSensorData rnd sd p)) = joint_num p"
  "avg_interval_base (fst (PublishSensorData rnd sd p)) = avg_interval_base p"
  by (simp_all add: PublishSensorData_def Let_def)

lemma ticks_tables:
  "sensor_addr_vec (ticks rnd d p n) = sensor_addr_vec p"
  "name_vec (ticks rnd d p n) = name_vec p"
  "joint_num (ticks rnd d p n) = joint_num p"
  "avg_interval_base (ticks rnd d p n) = avg_interval_base p"
  by (induction n) (simp_all add: PublishSensorData_tables)

lemma PublishSensorData_Some:
  assumes "snd (PublishSensorData rnd sd p) = Some st"
    and "joint_num p = length (sensor_addr_vec p)"
    and "length (name_vec p) = length (sensor_addr_vec p)"
  shows "st = map (\<lambda>(nm, a). (nm, slot_value sd (jointpos_addr a), slot_value sd (jointvel_addr a)))
               (zip (name_vec p) (sensor_addr_vec p))"
proof -
  from assms(1) have st: "st = build_state (p\<lparr>conter := conter p + 1\<rparr>)
      (read_state_array sd (p\<lparr>conter := conter p + 1\<rparr>))"
    by (simp add: PublishSensorData_def Let_def split: if_splits)
  show ?thesis
    unfolding st using assms(2,3)
    by (intro nth_equalityI)
      (simp_all add: build_state_def read_state_array_def slot_value_def Let_def)
qed

lemma published_Some:
  assumes "Initialize rnd mj ret frq joints = Inr p" "published rnd d p n = Some st"
  shows "st = map (\<lambda>j. (name j, slot_value (d n) (jointpos_addr (binding_entry mj j)),
                         slot_value (d n) (jointvel_addr (binding_entry mj j)))) joints"
proof -
  from Initialize_Inr [OF assms(1)] have p: "joint_num p = length joints"
      "sensor_addr_vec p = map (binding_entry mj) joints" "name_vec p = map name joints"
    by auto
  have "st = map (\<lambda>(nm, a). (nm, slot_value (d n) (jointpos_addr a), slot_value (d n) (jointvel_addr a)))
               (zip (name_vec (ticks rnd d p n)) (sensor_addr_vec (ticks rnd d p n)))"
    using assms(2) unfolding published_def
    by (rule PublishSensorData_Some) (simp_all add: ticks_tables p)
  then show ?thesis
    by (simp add: ticks_tables p zip_map_map zip_same_conv_map o_def)
qed

lemma published_first_tick:
  assumes "Initialize rnd mj ret frq joints = Inr p"
  shows "published rnd d p 0 =
     Some (map (\<lambda>j. (name j, slot_value (d 0) (jointpos_addr (binding_entry mj j)),
                         slot_value (d 0) (jointvel_addr (binding_entry mj j)))) joints)"
proof -
  from Initialize_Inr [OF assms] have "conter p = 0" "avg_interval p = 0"
    by auto
  then obtain st where "published rnd d p 0 = Some st"
    by (simp add: published_def PublishSensorData_def Let_def to_double_def)
  with published_Some [OF assms this] show ?thesis
    by simp
qed

lemma CheckFrequency_1000: "CheckFrequency exact 1000 = Inr 1"
proof -
  have "(1000::32 word) \<le> MAX_SIM_FRQ" "(1000::32 word) \<noteq> 0"
    "MAX_SIM_FRQ mod (1000::32 word) = 0" "to_double 1000 = 1000"
    by (simp_all add: MAX_SIM_FRQ_def to_double_def)
  from CheckFrequency_divisor [OF this] show ?thesis
    by (simp add: exact_def)
qed

lemma CheckFrequency_binary64_1000: "CheckFrequency binary64 1000 = Inr 1"
proof -
  have "(1000::32 word) \<le> MAX_SIM_FRQ" "(1000::32 word) \<noteq> 0"
    "MAX_SIM_FRQ mod (1000::32 word) = 0" "to_double 1000 = 1000"
    by (simp_all add: MAX_SIM_FRQ_def to_double_def)
  from CheckFrequency_divisor [OF this, of binary64]
  have "CheckFrequency binary64 1000 = Inr (binary64 (1000 / 1000))" .
  moreover have "binary64 (1000 / 1000) = 1"
    by code_simp
  ultimately show ?thesis
    by simp
qed

lemma binding_entry_empty [simp]:
  "bind_jointpos_sensor j = [] \<Longrightarrow> jointpos_addr (binding_entry mj j) = - 1"
  "bind_jointvel_sensor j = [] \<Longrightarrow> jointvel_addr (binding_entry mj j) = - 1"
  by (simp_all add: binding_entry_def sensor_idx_def)

lemma binding_entry_not_found [simp]:
  "mj (bind_jointpos_sensor j) = - 1 \<Longrightarrow> jointpos_addr (binding_entry mj j) = - 1"
  "mj (bind_jointvel_sensor j) = - 1 \<Longrightarrow> jointvel_addr (binding_entry mj j) = - 1"
  by (simp_all add: binding_entry_def sensor_idx_def)

text \<open>C4 fails on the code. With one entity whose position-sensor name is empty and whose
  velocity-sensor name \<open>unknown_vel\<close> is not found (\<^verbatim>\<open>mj_name2id\<close> returns \<open>-1\<close>), binding and the
  whole of initialisation succeed: the index is held in a \<^verbatim>\<open>uint32_t\<close>, so the test
  \<^verbatim>\<open>vel_idx < 0\<close> that guards the throw is never true (\<open>sensor_idx_not_negative\<close>), and the
  unknown name is stored as the sentinel \<open>-1\<close>, like an empty one.\<close>

theorem RegisterSensorAddr_unknown_sensor_accepted:
  "RegisterSensorAddr (\<lambda>s. - 1)
     [\<lparr>name = ''joint1'', bind_joint = ''joint1'', bind_jointpos_sensor = [],
       bind_jointvel_sensor = ''unknown_vel''\<rparr>] (new_publisher 1000)
   = Inr \<lparr>channel_frq = 1000, avg_interval_base = 1, avg_interval = 0, conter = 0, joint_num = 1,
          sensor_addr_vec = [\<lparr>jointpos_addr = - 1, jointvel_addr = - 1\<rparr>],
          name_vec = [''joint1'']\<rparr>
   \<and> Initialize exact (\<lambda>s. - 1) True 1000
     [\<lparr>name = ''joint1'', bind_joint = ''joint1'', bind_jointpos_sensor = [],
       bind_jointvel_sensor = ''unknown_vel''\<rparr>]
   = Inr \<lparr>channel_frq = 1000, avg_interval_base = 1, avg_interval = 0, conter = 0, joint_num = 1,
          sensor_addr_vec = [\<lparr>jointpos_addr = - 1, jointvel_addr = - 1\<rparr>],
          name_vec = [''joint1'']\<rparr>
   \<and> Initialize binary64 (\<lambda>s. - 1) True 1000
     [\<lparr>name = ''joint1'', bind_joint = ''joint1'', bind_jointpos_sensor = [],
       bind_jointvel_sensor = ''unknown_vel''\<rparr>]
   = Inr \<lparr>channel_frq = 1000, avg_interval_base = 1, avg_interval = 0, conter = 0, joint_num = 1,
          sensor_addr_vec = [\<lparr>jointpos_addr = - 1, jointvel_addr = - 1\<rparr>],
          name_vec = [''joint1'']\<rparr>"
  by (simp add: RegisterSensorAddr_Inr Initialize_eq CheckFrequency_1000
      CheckFrequency_binary64_1000 new_publisher_def binding_entry_def sensor_idx_def)

text \<open>C8: an entity whose position-sensor (velocity-sensor) name is empty is bound to the
  sentinel \<open>-1\<close>, and every message published afterwards, at any tick and for any content of
  the sensor buffer, carries position (velocity) 0 for it. Binding never throws an unknown
  sensor error for an empty name, and it succeeds when all names are empty; the per-tick
  function has no error result at all.\<close>

theorem empty_sensor_name_unbound:
  assumes "Initialize rnd mj ret frq joints = Inr p" and "i < length joints"
  shows "(bind_jointpos_sensor (joints ! i) = [] \<longrightarrow>
            jointpos_addr (sensor_addr_vec p ! i) = - 1
            \<and> (\<forall>n d st. published rnd d p n = Some st \<longrightarrow> fst (snd (st ! i)) = 0))
       \<and> (bind_jointvel_sensor (joints ! i) = [] \<longrightarrow>
            jointvel_addr (sensor_addr_vec p ! i) = - 1
            \<and> (\<forall>n d st. published rnd d p n = Some st \<longrightarrow> snd (snd (st ! i)) = 0))
       \<and> (\<forall>q kind. RegisterSensorAddr mj joints q \<noteq> Inl (Thrown (UnknownSensor [] kind)))
       \<and> ((\<forall>j \<in> set joints. bind_jointpos_sensor j = [] \<and> bind_jointvel_sensor j = []) \<longrightarrow>
            (\<forall>q. \<exists>q'. RegisterSensorAddr mj joints q = Inr q'))"
proof -
  from Initialize_Inr [OF assms(1)]
  have p: "sensor_addr_vec p = map (binding_entry mj) joints"
    by auto
  have st: "st ! i = (name (joints ! i),
        slot_value (d n) (jointpos_addr (binding_entry mj (joints ! i))),
        slot_value (d n) (jointvel_addr (binding_entry mj (joints ! i))))"
    if "published rnd d p n = Some st" for n d st
    using published_Some [OF assms(1) that] assms(2) by simp
  show ?thesis
    using assms(2) by (auto simp add: p st slot_value_def RegisterSensorAddr_Inr)
qed

theorem empty_sensor_name_unbound_witness:
  "Initialize binary64 (\<lambda>s. if s = ''p1'' then 0 else if s = ''v1'' then 1 else - 1) True 1000
     [\<lparr>name = ''joint2'', bind_joint = ''joint2'', bind_jointpos_sensor = [],
       bind_jointvel_sensor = []\<rparr>]
   = Inr \<lparr>channel_frq = 1000, avg_interval_base = 1, avg_interval = 0, conter = 0, joint_num = 1,
          sensor_addr_vec = [\<lparr>jointpos_addr = - 1, jointvel_addr = - 1\<rparr>],
          name_vec = [''joint2'']\<rparr>
   \<and> published binary64 (\<lambda>n i. 7)
       \<lparr>channel_frq = 1000, avg_interval_base = 1, avg_interval = 0, conter = 0, joint_num = 1,
        sensor_addr_vec = [\<lparr>jointpos_addr = - 1, jointvel_addr = - 1\<rparr>],
        name_vec = [''joint2'']\<rparr> 0
     = Some [(''joint2'', 0, 0)]
   \<and> fst (snd ([(''joint2'', 0 :: rat, 0 :: rat)] ! 0)) = 0
   \<and> snd (snd ([(''joint2'', 0 :: rat, 0 :: rat)] ! 0)) = 0"
proof -
  let ?mj = "\<lambda>s. if s = ''p1'' then 0 else if s = ''v1'' then 1 else (- 1 :: int)"
  let ?joints = "[\<lparr>name = ''joint2'', bind_joint = ''joint2'', bind_jointpos_sensor = [],
       bind_jointvel_sensor = []\<rparr>]"
  let ?p = "\<lparr>channel_frq = 1000, avg_interval_base = 1, avg_interval = 0, conter = 0, joint_num = 1,
          sensor_addr_vec = [\<lparr>jointpos_addr = - 1, jointvel_addr = - 1\<rparr>],
          name_vec = [''joint2'']\<rparr>"
  have init: "Initialize binary64 ?mj True 1000 ?joints = Inr ?p"
    by (simp add: Initialize_eq CheckFrequency_binary64_1000)
  have i: "0 < length ?joints"
    by simp
  have pub: "published binary64 (\<lambda>n i. 7) ?p 0 = Some [(''joint2'', 0, 0)]"
    using published_first_tick [OF init, of "\<lambda>n i. 7"] by (simp add: slot_value_def)
  from empty_sensor_name_unbound [OF init i] pub init show ?thesis
    by simp
qed

text \<open>C9: after a successful initialisation the binding table, the name table and every
  message published at any later tick list the entities in the order of the configuration;
  a message is the configuration mapped, entity by entity, to name, position and velocity.
  All of these are functions of the configuration, the resolver and the sensor buffer, so
  identical runs give identical order.\<close>

theorem configuration_order_preserved:
  assumes "Initialize rnd mj ret frq joints = Inr p"
  shows "name_vec p = map name joints
       \<and> sensor_addr_vec p = map (binding_entry mj) joints
       \<and> joint_num p = length joints
       \<and> (\<forall>n d st. published rnd d p n = Some st \<longrightarrow>
            map fst st = map name joints
            \<and> st = map (\<lambda>j. (name j, slot_value (d n) (jointpos_addr (binding_entry mj j)),
                                 slot_value (d n) (jointvel_addr (binding_entry mj j)))) joints)"
proof -
  have "map fst st = map name joints" and "st = map (\<lambda>j. (name j, slot_value (d n) (jointpos_addr (binding_entry mj j)),
                                 slot_value (d n) (jointvel_addr (binding_entry mj j)))) joints"
    if "published rnd d p n = Some st" for n d st
    using published_Some [OF assms that] by (simp_all add: o_def)
  with Initialize_Inr [OF assms] show ?thesis
    by auto
qed

theorem configuration_order_preserved_witness:
  "Initialize binary64 (\<lambda>s. if s = ''p1'' then 0 else if s = ''v1'' then 1 else - 1) True 1000
     [\<lparr>name = ''joint1'', bind_joint = ''joint1'', bind_jointpos_sensor = ''p1'',
       bind_jointvel_sensor = ''v1''\<rparr>,
      \<lparr>name = ''joint2'', bind_joint = ''joint2'', bind_jointpos_sensor = [],
       bind_jointvel_sensor = []\<rparr>]
   = Inr \<lparr>channel_frq = 1000, avg_interval_base = 1, avg_interval = 0, conter = 0, joint_num = 2,
          sensor_addr_vec = [\<lparr>jointpos_addr = 0, jointvel_addr = 1\<rparr>,
                             \<lparr>jointpos_addr = - 1, jointvel_addr = - 1\<rparr>],
          name_vec = [''joint1'', ''joint2'']\<rparr>
   \<and> published binary64 (\<lambda>n i. if i = 0 then 3 / 2 else - (1 / 5))
       \<lparr>channel_frq = 1000, avg_interval_base = 1, avg_interval = 0, conter = 0, joint_num = 2,
        sensor_addr_vec = [\<lparr>jointpos_addr = 0, jointvel_addr = 1\<rparr>,
                           \<lparr>jointpos_addr = - 1, jointvel_addr = - 1\<rparr>],
        name_vec = [''joint1'', ''joint2'']\<rparr> 0
     = Some [(''joint1'', 3 / 2, - (1 / 5)), (''joint2'', 0, 0)]
   \<and> map fst [(''joint1'', 3 / 2 :: rat, - (1 / 5) :: rat), (''joint2'', 0, 0)]
     = [''joint1'', ''joint2'']"
proof -
  let ?mj = "\<lambda>s. if s = ''p1'' then 0 else if s = ''v1'' then 1 else (- 1 :: int)"
  let ?joints = "[\<lparr>name = ''joint1'', bind_joint = ''joint1'', bind_jointpos_sensor = ''p1'',
       bind_jointvel_sensor = ''v1''\<rparr>,
      \<lparr>name = ''joint2'', bind_joint = ''joint2'', bind_jointpos_sensor = [],
       bind_jointvel_sensor = []\<rparr>]"
  let ?p = "\<lparr>channel_frq = 1000, avg_interval_base = 1, avg_interval = 0, conter = 0, joint_num = 2,
          sensor_addr_vec = [\<lparr>jointpos_addr = 0, jointvel_addr = 1\<rparr>,
                             \<lparr>jointpos_addr = - 1, jointvel_addr = - 1\<rparr>],
          name_vec = [''joint1'', ''joint2'']\<rparr>"
  let ?d = "\<lambda>(n::nat) (i::nat). if i = 0 then 3 / 2 else - (1 / 5) :: rat"
  have init: "Initialize binary64 ?mj True 1000 ?joints = Inr ?p"
    by (simp add: Initialize_eq CheckFrequency_binary64_1000 binding_entry_def sensor_idx_def)
  have pub: "published binary64 ?d ?p 0 = Some [(''joint1'', 3 / 2, - (1 / 5)), (''joint2'', 0, 0)]"
    using published_first_tick [OF init, of ?d]
    by (simp add: slot_value_def binding_entry_def sensor_idx_def)
  from configuration_order_preserved [OF init] pub init show ?thesis
    by simp
qed

section \<open>The rate divider in exact arithmetic\<close>

text \<open>The divider without rounding, in closed form. The code runs like this when the target
  frequency divides 1000: every threshold is then an integer, and no addition rounds.\<close>

lemma emitted_before_bounds:
  assumes "1 \<le> b"
  shows "of_nat n - 1 < of_int (emitted_before b n) * b"
    and "of_int (emitted_before b n) * b \<le> of_nat n - 1 + b"
proof -
  have b: "0 < b" using assms by simp
  let ?x = "(of_nat n - 1) / b"
  have xb: "?x * b = of_nat n - 1"
    using b by simp
  have "?x < of_int (\<lfloor>?x\<rfloor> + 1)" by linarith
  then have "?x * b < of_int (\<lfloor>?x\<rfloor> + 1) * b"
    using b by (simp only: mult_less_cancel_right_pos)
  then show "of_nat n - 1 < of_int (emitted_before b n) * b"
    unfolding xb by (simp add: emitted_before_def)
  have "of_int \<lfloor>?x\<rfloor> \<le> ?x" by simp
  then have "of_int \<lfloor>?x\<rfloor> * b \<le> ?x * b"
    using b by (simp only: mult_le_cancel_right_pos)
  then have "of_int \<lfloor>?x\<rfloor> * b \<le> of_nat n - 1"
    unfolding xb .
  then show "of_int (emitted_before b n) * b \<le> of_nat n - 1 + b"
    by (simp add: emitted_before_def algebra_simps)
qed

lemma emitted_before_0: "1 \<le> b \<Longrightarrow> emitted_before b 0 = 0"
proof -
  assume b: "1 \<le> b"
  have "\<lfloor>- 1 / b\<rfloor> = - 1"
  proof (rule floor_unique)
    show "of_int (- 1) \<le> - 1 / b" using b by (simp add: field_simps)
    show "- 1 / b < of_int (- 1) + 1" using b by (simp add: field_simps)
  qed
  then show ?thesis by (simp add: emitted_before_def)
qed

lemma emitted_before_unique:
  assumes "1 \<le> b" "of_nat n - 1 < of_int e * b" "of_int e * b \<le> of_nat n - 1 + b"
  shows "emitted_before b n = e"
proof -
  have b: "0 < b" using assms by simp
  have "\<lfloor>(of_nat n - 1) / b\<rfloor> = e - 1"
  proof (rule floor_unique)
    show "of_int (e - 1) \<le> (of_nat n - 1) / b"
      using b assms(3) by (simp add: field_simps)
    show "(of_nat n - 1) / b < of_int (e - 1) + 1"
      using b assms(2) by (simp add: field_simps)
  qed
  then show ?thesis by (simp add: emitted_before_def)
qed

lemma emitted_before_Suc:
  assumes "1 \<le> b"
  shows "emitted_before b (Suc n) =
    (if of_nat n < of_int (emitted_before b n) * b then emitted_before b n
     else emitted_before b n + 1)"
proof -
  note bd = emitted_before_bounds [OF assms, of n]
  show ?thesis
  proof (cases "of_nat n < of_int (emitted_before b n) * b")
    case True
    have "emitted_before b (Suc n) = emitted_before b n"
      using True bd assms by (intro emitted_before_unique) (simp_all add: algebra_simps)
    with True show ?thesis by simp
  next
    case False
    have "emitted_before b (Suc n) = emitted_before b n + 1"
      using False bd assms by (intro emitted_before_unique) (simp_all add: algebra_simps)
    with False show ?thesis by simp
  qed
qed



lemma unat_ONE_MB: "unat ONE_MB = 1048576"
  by (simp add: ONE_MB_def)

lemma to_double_ONE_MB: "to_double ONE_MB = 1048576"
  by (simp add: to_double_def ONE_MB_def)

lemma unat_conter_Suc:
  fixes c :: "32 word"
  assumes "unat c \<le> 2000000"
  shows "unat (c + 1) = unat c + 1"
proof -
  have "unat c + unat (1 :: 32 word) < 2 ^ LENGTH(32)"
    using assms by simp
  then have "unat (c + 1) = unat c + unat (1 :: 32 word)"
    by (simp only: unat_add_lem)
  then show ?thesis by simp
qed

lemma PublishSensorData_step:
  assumes "unat (conter p) \<le> 2000000"
  shows "unat (conter (fst (PublishSensorData rnd sd p))) =
      (if to_double (conter p) < avg_interval p then unat (conter p) + 1
       else if 1048576 < unat (conter p) + 1 then unat (conter p) + 1 - 1048576
       else unat (conter p) + 1)"
    and "avg_interval (fst (PublishSensorData rnd sd p)) =
      (if to_double (conter p) < avg_interval p then avg_interval p
       else if 1048576 < unat (conter p) + 1
         then rnd (rnd (avg_interval p + avg_interval_base p) - 1048576)
       else rnd (avg_interval p + avg_interval_base p))"
    and "(snd (PublishSensorData rnd sd p) \<noteq> None) =
      (\<not> to_double (conter p) < avg_interval p)"
proof -
  note s = unat_conter_Suc [OF assms]
  have lt: "(ONE_MB < conter p + 1) = (1048576 < unat (conter p) + 1)"
    by (simp add: word_less_nat_alt unat_ONE_MB s)
  have sub: "unat (conter p + 1 - ONE_MB) = unat (conter p) + 1 - 1048576"
    if "1048576 < unat (conter p) + 1"
  proof -
    have "ONE_MB \<le> conter p + 1"
      using that by (simp add: word_le_nat_alt unat_ONE_MB s)
    then show ?thesis
      by (simp add: unat_sub unat_ONE_MB s)
  qed
  show "unat (conter (fst (PublishSensorData rnd sd p))) =
      (if to_double (conter p) < avg_interval p then unat (conter p) + 1
       else if 1048576 < unat (conter p) + 1 then unat (conter p) + 1 - 1048576
       else unat (conter p) + 1)"
    using sub by (simp add: PublishSensorData_def Let_def lt s)
  show "avg_interval (fst (PublishSensorData rnd sd p)) =
      (if to_double (conter p) < avg_interval p then avg_interval p
       else if 1048576 < unat (conter p) + 1
         then rnd (rnd (avg_interval p + avg_interval_base p) - 1048576)
       else rnd (avg_interval p + avg_interval_base p))"
    by (simp add: PublishSensorData_def Let_def lt to_double_ONE_MB)
  show "(snd (PublishSensorData rnd sd p) \<noteq> None) =
      (\<not> to_double (conter p) < avg_interval p)"
    by (simp add: PublishSensorData_def Let_def)
qed

lemma PublishSensorData_exact_step:
  assumes "unat (conter p) \<le> 1049576"
  shows "unat (conter (fst (PublishSensorData exact sd p))) =
      (if to_double (conter p) < avg_interval p then unat (conter p) + 1
       else if 1048576 < unat (conter p) + 1 then unat (conter p) + 1 - 1048576
       else unat (conter p) + 1)"
    and "avg_interval (fst (PublishSensorData exact sd p)) =
      (if to_double (conter p) < avg_interval p then avg_interval p
       else if 1048576 < unat (conter p) + 1
         then avg_interval p + avg_interval_base p - 1048576
       else avg_interval p + avg_interval_base p)"
    and "(snd (PublishSensorData exact sd p) \<noteq> None) =
      (\<not> to_double (conter p) < avg_interval p)"
proof -
  from assms have "unat (conter p) \<le> 2000000"
    by simp
  from PublishSensorData_step [OF this, of exact sd] show
    "unat (conter (fst (PublishSensorData exact sd p))) =
      (if to_double (conter p) < avg_interval p then unat (conter p) + 1
       else if 1048576 < unat (conter p) + 1 then unat (conter p) + 1 - 1048576
       else unat (conter p) + 1)"
    "avg_interval (fst (PublishSensorData exact sd p)) =
      (if to_double (conter p) < avg_interval p then avg_interval p
       else if 1048576 < unat (conter p) + 1
         then avg_interval p + avg_interval_base p - 1048576
       else avg_interval p + avg_interval_base p)"
    "(snd (PublishSensorData exact sd p) \<noteq> None) =
      (\<not> to_double (conter p) < avg_interval p)"
    by (simp_all add: exact_def)
qed

lemma divider_invI:
  assumes "avg_interval_base p = b" "unat (conter p) \<le> 1049576" "avg_interval p \<le> 1048575 + b"
    "unat (conter p) + k * 1048576 = n"
    "avg_interval p + of_nat (k * 1048576) = of_int (emitted_before b n) * b"
  shows "divider_inv b n p"
  unfolding divider_inv_def using assms by blast

lemma divider_inv_step:
  assumes b: "1 \<le> b" "b \<le> 1000" and inv: "divider_inv b n p"
  shows "divider_inv b (Suc n) (fst (PublishSensorData exact sd p))"
    and "(snd (PublishSensorData exact sd p) \<noteq> None) = (of_int (emitted_before b n) * b \<le> of_nat n)"
proof -
  let ?p' = "fst (PublishSensorData exact sd p)"
  let ?c = "unat (conter p)"
  from inv obtain k where base: "avg_interval_base p = b"
    and c: "?c \<le> 1049576" and a: "avg_interval p \<le> 1048575 + b"
    and n: "?c + k * 1048576 = n"
    and e: "avg_interval p + of_nat (k * 1048576) = of_int (emitted_before b n) * b"
    by (auto simp add: divider_inv_def)
  note step = PublishSensorData_exact_step [OF c, of sd]
  have base': "avg_interval_base ?p' = b"
    by (simp add: PublishSensorData_tables base)
  have td: "to_double (conter p) = of_nat ?c"
    by (simp add: to_double_def)
  have n': "of_nat n = (of_nat ?c :: rat) + of_nat (k * 1048576)"
    unfolding n [symmetric] by (simp only: of_nat_add)
  have cmp: "(to_double (conter p) < avg_interval p) = (of_nat n < of_int (emitted_before b n) * b)"
    unfolding n' e [symmetric] td by simp
  show "(snd (PublishSensorData exact sd p) \<noteq> None) = (of_int (emitted_before b n) * b \<le> of_nat n)"
    unfolding step(3) cmp by (simp add: not_less)
  show "divider_inv b (Suc n) ?p'"
  proof (cases "to_double (conter p) < avg_interval p")
    case True
    have c': "unat (conter ?p') = ?c + 1" and a': "avg_interval ?p' = avg_interval p"
      using step(1,2) True by simp_all
    have "(of_nat ?c :: rat) < of_nat 1049575"
      using True a b(2) unfolding td by simp
    then have "?c < 1049575"
      by (simp only: of_nat_less_iff)
    then have 2: "unat (conter ?p') \<le> 1049576"
      unfolding c' by simp
    have 3: "avg_interval ?p' \<le> 1048575 + b"
      unfolding a' by (rule a)
    have 4: "unat (conter ?p') + k * 1048576 = Suc n"
      unfolding c' using n by simp
    have "emitted_before b (Suc n) = emitted_before b n"
      using True cmp by (simp add: emitted_before_Suc [OF b(1)])
    then have 5: "avg_interval ?p' + of_nat (k * 1048576) = of_int (emitted_before b (Suc n)) * b"
      unfolding a' using e by simp
    from base' 2 3 4 5 show ?thesis
      by (rule divider_invI)
  next
    case False
    then have ca: "avg_interval p \<le> of_nat ?c"
      unfolding td by simp
    have e': "emitted_before b (Suc n) = emitted_before b n + 1"
      using False cmp by (simp add: emitted_before_Suc [OF b(1)])
    show ?thesis
    proof (cases "1048576 < ?c + 1")
      case True
      have c': "unat (conter ?p') = ?c + 1 - 1048576"
        and a': "avg_interval ?p' = avg_interval p + b - 1048576"
        using step(1,2) False True base by simp_all
      have 2: "unat (conter ?p') \<le> 1049576"
        unfolding c' using c by simp
      have "(of_nat ?c :: rat) \<le> of_nat 1049576"
        using c by (simp only: of_nat_le_iff)
      then have 3: "avg_interval ?p' \<le> 1048575 + b"
        unfolding a' using ca by simp
      have 4: "unat (conter ?p') + Suc k * 1048576 = Suc n"
        unfolding c' using n True by simp
      have 5: "avg_interval ?p' + of_nat (Suc k * 1048576) = of_int (emitted_before b (Suc n)) * b"
        unfolding a' e' using e by (simp add: algebra_simps)
      from base' 2 3 4 5 show ?thesis
        by (rule divider_invI)
    next
      case nr: False
      have c': "unat (conter ?p') = ?c + 1"
        and a': "avg_interval ?p' = avg_interval p + b"
        using step(1,2) False nr base by simp_all
      have 2: "unat (conter ?p') \<le> 1049576"
        unfolding c' using nr by simp
      have "(of_nat ?c :: rat) \<le> of_nat 1048575"
        using nr by (simp only: of_nat_le_iff)
      then have 3: "avg_interval ?p' \<le> 1048575 + b"
        unfolding a' using ca by simp
      have 4: "unat (conter ?p') + k * 1048576 = Suc n"
        unfolding c' using n by simp
      have 5: "avg_interval ?p' + of_nat (k * 1048576) = of_int (emitted_before b (Suc n)) * b"
        unfolding a' e' using e by (simp add: algebra_simps)
      from base' 2 3 4 5 show ?thesis
        by (rule divider_invI)
    qed
  qed
qed

lemma divider_inv_ticks:
  assumes b: "1 \<le> b" "b \<le> 1000"
    and p: "avg_interval_base p = b" "conter p = 0" "avg_interval p = 0"
  shows "divider_inv b n (ticks exact d p n)"
proof (induction n)
  case 0
  have "divider_inv b 0 p"
    using b p by (intro divider_invI [where k = 0]) (simp_all add: emitted_before_0)
  then show ?case by simp
next
  case (Suc n)
  from divider_inv_step(1) [OF b Suc] show ?case by simp
qed

lemma emits_exact_iff:
  assumes b: "1 \<le> b" "b \<le> 1000"
    and p: "avg_interval_base p = b" "conter p = 0" "avg_interval p = 0"
  shows "emits exact d p n = (of_int (emitted_before b n) * b \<le> of_nat n)"
  unfolding emits_def published_def
  by (rule divider_inv_step(2) [OF b divider_inv_ticks [OF b p]])

lemma to_double_MAX_SIM_FRQ: "to_double MAX_SIM_FRQ = 1000"
  by (simp add: to_double_def MAX_SIM_FRQ_def)

lemma CheckFrequency_Inr:
  assumes "CheckFrequency rnd frq = Inr b"
  shows "frq \<noteq> 0" "frq \<le> MAX_SIM_FRQ" "b = rnd (1000 / to_double frq)"
proof -
  from assms show "frq \<noteq> 0"
    by (auto simp add: CheckFrequency_def split: if_splits)
  from assms show "frq \<le> MAX_SIM_FRQ"
    by (auto simp add: CheckFrequency_def split: if_splits)
  from assms show "b = rnd (1000 / to_double frq)"
    by (auto simp add: CheckFrequency_def Let_def to_double_MAX_SIM_FRQ split: if_splits)
qed

lemma to_double_bounds:
  assumes "frq \<noteq> 0" "frq \<le> MAX_SIM_FRQ"
  shows "1 \<le> to_double frq" "to_double frq \<le> 1000"
proof -
  have "unat frq \<noteq> 0"
    using assms(1) by (simp add: unat_eq_0)
  then have "1 \<le> unat frq"
    by simp
  then have "(of_nat 1 :: rat) \<le> of_nat (unat frq)"
    by (simp only: of_nat_le_iff)
  then show "1 \<le> to_double frq"
    unfolding to_double_def by (simp only: of_nat_1)
  have "unat frq \<le> 1000"
    using assms(2) by (simp add: word_le_nat_alt MAX_SIM_FRQ_def)
  then have "(of_nat (unat frq) :: rat) \<le> of_nat 1000"
    by (simp only: of_nat_le_iff)
  then show "to_double frq \<le> 1000"
    unfolding to_double_def by (simp only: of_nat_numeral)
qed

lemma interval_base_bounds:
  assumes "frq \<noteq> 0" "frq \<le> MAX_SIM_FRQ"
  shows "1 \<le> 1000 / to_double frq" "1000 / to_double frq \<le> 1000"
  using to_double_bounds [OF assms] by (simp_all add: field_simps)

lemma Initialize_exact_divider:
  assumes "Initialize exact mj ret frq joints = Inr p"
  shows "1 \<le> avg_interval_base p" "avg_interval_base p \<le> 1000"
    "avg_interval_base p = 1000 / to_double frq" "conter p = 0" "avg_interval p = 0"
    "1 \<le> to_double frq"
proof -
  from Initialize_Inr [OF assms] obtain base where c: "CheckFrequency exact frq = Inr base"
    and p: "avg_interval_base p = base" "conter p = 0" "avg_interval p = 0"
    by auto
  note v = CheckFrequency_Inr [OF c]
  show "avg_interval_base p = 1000 / to_double frq"
    using v(3) p(1) by (simp add: exact_def)
  then show "1 \<le> avg_interval_base p" "avg_interval_base p \<le> 1000"
    using interval_base_bounds [OF v(1,2)] by simp_all
  show "conter p = 0" "avg_interval p = 0"
    by (fact p)+
  show "1 \<le> to_double frq"
    by (rule to_double_bounds [OF v(1,2)])
qed



lemma count_emits:
  assumes b: "1 \<le> b" "b \<le> 1000"
    and p: "avg_interval_base p = b" "conter p = 0" "avg_interval p = 0"
  shows "int (length (filter (emits exact d p) [a..<a + N])) =
    emitted_before b (a + N) - emitted_before b a"
proof (induction N)
  case 0
  show ?case by simp
next
  case (Suc N)
  have "emitted_before b (Suc (a + N)) =
      (if emits exact d p (a + N) then emitted_before b (a + N) + 1 else emitted_before b (a + N))"
    unfolding emits_exact_iff [OF b p] emitted_before_Suc [OF b(1)] by (simp add: not_less)
  with Suc show ?case by simp
qed

lemma no_emits_between:
  assumes b: "1 \<le> b" "b \<le> 1000"
    and p: "avg_interval_base p = b" "conter p = 0" "avg_interval p = 0"
    and "\<forall>m. a \<le> m \<and> m < a + N \<longrightarrow> \<not> emits exact d p m"
  shows "emitted_before b (a + N) = emitted_before b a"
proof -
  have "filter (emits exact d p) [a..<a + N] = []"
    using assms(6) by (auto simp add: filter_empty_conv)
  with count_emits [OF b p, of d a N] show ?thesis by simp
qed


lemma between_floor_ceiling:
  fixes b :: rat and z :: int
  assumes "b - 1 < of_int z" "of_int z < b + 1"
  shows "z = \<lfloor>b\<rfloor> \<or> z = \<lceil>b\<rceil>"
proof -
  have "\<lfloor>b\<rfloor> \<le> z"
    using assms(1) by linarith
  moreover have "z \<le> \<lceil>b\<rceil>"
    using assms(2) by linarith
  moreover have "\<lceil>b\<rceil> \<le> \<lfloor>b\<rfloor> + 1"
    by linarith
  ultimately show ?thesis
    using assms by linarith
qed



lemma emission_gaps_exact:
  assumes "Initialize exact mj ret frq joints = Inr p"
    and "i < k" and "emits exact d p i" and "emits exact d p k"
    and "\<forall>m. i < m \<and> m < k \<longrightarrow> \<not> emits exact d p m"
  shows "int (k - i) = \<lfloor>1000 / to_double frq\<rfloor> \<or> int (k - i) = \<lceil>1000 / to_double frq\<rceil>"
proof -
  note init = Initialize_exact_divider [OF assms(1)]
  let ?b = "avg_interval_base p"
  let ?E = "emitted_before ?b"
  note iff = emits_exact_iff [OF init(1,2) refl init(4,5)]
  have ei: "of_int (?E i) * ?b \<le> of_nat i"
    using assms(3) by (simp add: iff)
  have ek: "of_int (?E k) * ?b \<le> of_nat k"
    using assms(4) by (simp add: iff)
  have "?E (Suc i) = ?E i + 1"
    using ei by (simp add: emitted_before_Suc [OF init(1)])
  moreover have "?E (Suc i + (k - Suc i)) = ?E (Suc i)"
    using assms(2,5)
    by (intro no_emits_between [OF init(1,2) refl init(4,5), where d = d]) auto
  ultimately have E: "?E k = ?E i + 1"
    using assms(2) by simp
  note bi = emitted_before_bounds(1) [OF init(1), of i]
  note bk = emitted_before_bounds(1) [OF init(1), of k]
  have ki: "(of_int (int (k - i)) :: rat) = of_nat k - of_nat i"
    using assms(2) by (simp add: of_nat_diff)
  have "?b - 1 < of_int (int (k - i))"
    unfolding ki using bi ek unfolding E by (simp add: algebra_simps)
  moreover have "of_int (int (k - i)) < ?b + 1"
    unfolding ki using bk ei unfolding E by (simp add: algebra_simps)
  ultimately show ?thesis
    unfolding init(3) [symmetric] by (rule between_floor_ceiling)
qed

section \<open>Rounding to the nearest double\<close>

lemma bitlen_pos: "0 < x \<Longrightarrow> 1 \<le> bitlen x"
  by (simp add: bitlen_alt_def)

lemma bitlen_bounds_rat:
  assumes "0 < (n :: int)"
  shows "2 powi (bitlen n - 1) \<le> (of_int n :: rat)" "(of_int n :: rat) < 2 powi (bitlen n)"
proof -
  note b = bitlen_bounds [OF assms] and p = bitlen_pos [OF assms]
  have "(of_int (2 ^ nat (bitlen n - 1)) :: rat) \<le> of_int n"
    using b by (simp only: of_int_le_iff)
  then show "2 powi (bitlen n - 1) \<le> (of_int n :: rat)"
    using p by (simp add: power_int_nonneg_exp)
  have "(of_int n :: rat) < of_int (2 ^ nat (bitlen n))"
    using b by (simp only: of_int_less_iff)
  then show "(of_int n :: rat) < 2 powi (bitlen n)"
    using p by (simp add: power_int_nonneg_exp)
qed

lemma ilog2_bounds:
  assumes "0 < x"
  shows "2 powi (ilog2 x) \<le> x" "x < 2 powi (ilog2 x + 1)"
proof -
  obtain p q where pq: "quotient_of x = (p, q)"
    by (cases "quotient_of x")
  have q: "0 < q"
    by (rule quotient_of_denom_pos [OF pq])
  have x: "x = of_int p / of_int q"
    by (rule quotient_of_div [OF pq])
  have p: "0 < p"
    using assms q unfolding x by (simp add: zero_less_divide_iff)
  note bp = bitlen_bounds_rat [OF p] and bq = bitlen_bounds_rat [OF q]
  let ?e = "bitlen p - bitlen q"
  have qpos: "(0 :: rat) < of_int q" using q by simp
  have ppos: "(0 :: rat) < of_int p" using p by simp
  have lo: "2 powi (?e - 1) \<le> x"
  proof -
    have "(2 :: rat) powi (?e - 1) = 2 powi (bitlen p - 1) / 2 powi (bitlen q)"
      by (simp add: power_int_diff [symmetric] algebra_simps)
    also have "\<dots> \<le> of_int p / 2 powi (bitlen q)"
      using bp(1) by (simp add: divide_right_mono)
    also have "\<dots> \<le> of_int p / of_int q"
      using bq(2) ppos qpos by (intro divide_left_mono) simp_all
    finally show ?thesis unfolding x .
  qed
  have hi: "x < 2 powi (?e + 1)"
  proof -
    have "of_int p / of_int q < (2 :: rat) powi (bitlen p) / of_int q"
      using bp(2) qpos by (simp add: divide_strict_right_mono)
    also have "\<dots> \<le> 2 powi (bitlen p) / 2 powi (bitlen q - 1)"
      using bq(1) qpos by (intro divide_left_mono) simp_all
    also have "\<dots> = 2 powi (?e + 1)"
      by (simp add: power_int_diff [symmetric] algebra_simps)
    finally show ?thesis unfolding x .
  qed
  have e: "ilog2 x = (if 2 powi ?e \<le> x then ?e else ?e - 1)"
    by (simp add: ilog2_def pq)
  show "2 powi (ilog2 x) \<le> x"
    unfolding e using lo by simp
  show "x < 2 powi (ilog2 x + 1)"
    unfolding e using hi by (simp add: not_le)
qed

lemma round_ties_even_error: "\<bar>of_int (round_ties_even y) - y\<bar> \<le> 1 / 2"
proof -
  have "of_int \<lfloor>y\<rfloor> \<le> y" "y < of_int \<lfloor>y\<rfloor> + 1"
    by linarith+
  then show ?thesis
    by (auto simp add: round_ties_even_def Let_def abs_le_iff)
qed

lemma round_ties_even_of_int: "round_ties_even (of_int n) = n"
  by (simp add: round_ties_even_def)

lemma binary64_error_unit:
  assumes "x \<noteq> 0"
  shows "\<bar>binary64 x - x\<bar> \<le> 2 powi (max (ilog2 \<bar>x\<bar>) (- 1022) - 52) / 2"
proof -
  let ?u = "(2 :: rat) powi (max (ilog2 \<bar>x\<bar>) (- 1022) - 52)"
  have u: "0 < ?u" by simp
  have "binary64 x - x = (of_int (round_ties_even (x / ?u)) - x / ?u) * ?u"
    using assms u by (simp add: binary64_def Let_def algebra_simps)
  then have "\<bar>binary64 x - x\<bar> = \<bar>of_int (round_ties_even (x / ?u)) - x / ?u\<bar> * ?u"
    using u by (simp add: abs_mult)
  also have "\<dots> \<le> 1 / 2 * ?u"
    using u round_ties_even_error [of "x / ?u"] by (intro mult_right_mono) simp_all
  finally show ?thesis by simp
qed

lemma ilog2_less:
  assumes "0 < x" "x < 2 powi k"
  shows "ilog2 x < k"
proof (rule ccontr)
  assume "\<not> ilog2 x < k"
  then have "(2 :: rat) powi k \<le> 2 powi (ilog2 x)"
    by (intro power_int_increasing) simp_all
  with ilog2_bounds(1) [OF assms(1)] assms(2) show False by simp
qed

lemma ilog2_ge:
  assumes "0 < x" "2 powi k \<le> x"
  shows "k \<le> ilog2 x"
proof (rule ccontr)
  assume "\<not> k \<le> ilog2 x"
  then have "(2 :: rat) powi (ilog2 x + 1) \<le> 2 powi k"
    by (intro power_int_increasing) simp_all
  with ilog2_bounds(2) [OF assms(1)] assms(2) show False by simp
qed

lemma binary64_error:
  assumes "\<bar>x\<bar> < 4194304"
  shows "\<bar>binary64 x - x\<bar> \<le> 1 / 4294967296"
proof (cases "x = 0")
  case True
  then show ?thesis by (simp add: binary64_def)
next
  case False
  then have pos: "0 < \<bar>x\<bar>" by simp
  have "\<bar>x\<bar> < 2 powi 22"
    using assms by simp
  from ilog2_less [OF pos this] have "max (ilog2 \<bar>x\<bar>) (- 1022) - 52 \<le> - 31"
    by simp
  then have "(2 :: rat) powi (max (ilog2 \<bar>x\<bar>) (- 1022) - 52) \<le> 2 powi (- 31)"
    by (intro power_int_increasing) simp_all
  with binary64_error_unit [OF False] show ?thesis
    by (simp add: power_int_minus_divide)
qed

lemma binary64_of_int:
  assumes "\<bar>n\<bar> < 4194304"
  shows "binary64 (of_int n) = of_int n"
proof (cases "n = 0")
  case True
  then show ?thesis by (simp add: binary64_def)
next
  case False
  let ?x = "of_int n :: rat"
  have pos: "0 < \<bar>?x\<bar>" using False by simp
  have "1 \<le> \<bar>n\<bar>" using False by simp
  then have "(of_int 1 :: rat) \<le> of_int \<bar>n\<bar>"
    by (simp only: of_int_le_iff)
  then have "2 powi 0 \<le> \<bar>?x\<bar>" by simp
  from ilog2_ge [OF pos this] have e0: "0 \<le> ilog2 \<bar>?x\<bar>" .
  have "(of_int \<bar>n\<bar> :: rat) < of_int 4194304"
    using assms by (simp only: of_int_less_iff)
  then have "\<bar>?x\<bar> < 2 powi 22" by simp
  from ilog2_less [OF pos this] have e1: "ilog2 \<bar>?x\<bar> < 22" .
  define k where "k = nat (52 - ilog2 \<bar>?x\<bar>)"
  have e: "max (ilog2 \<bar>?x\<bar>) (- 1022) - 52 = - int k"
    using e0 e1 by (simp add: k_def)
  have u: "(2 :: rat) powi (max (ilog2 \<bar>?x\<bar>) (- 1022) - 52) = 1 / 2 ^ k"
    unfolding e by (simp add: power_int_minus_divide)
  have "?x / (1 / 2 ^ k) = of_int (n * 2 ^ k)"
    by simp
  then have "round_ties_even (?x / (1 / 2 ^ k)) = n * 2 ^ k"
    by (simp only: round_ties_even_of_int)
  then show ?thesis
    using False unfolding binary64_def Let_def u by simp
qed
















lemma faithful_exact: "faithful exact"
  by (simp add: faithful_def exact_def)

lemma faithful_binary64: "faithful binary64"
  unfolding faithful_def using binary64_error binary64_of_int by blast

lemma faithful_error: "faithful rnd \<Longrightarrow> \<bar>x\<bar> < 4194304 \<Longrightarrow> \<bar>rnd x - x\<bar> \<le> 1 / 4294967296"
  by (simp add: faithful_def)

lemma faithful_of_int: "faithful rnd \<Longrightarrow> \<bar>n\<bar> < 4194304 \<Longrightarrow> rnd (of_int n) = of_int n"
  by (simp add: faithful_def)

section \<open>The rate divider in double arithmetic\<close>

text \<open>Integer interval bases: every threshold is an integer, so a faithful rounding never
  rounds, and the run is the run in exact arithmetic.\<close>

lemma PublishSensorData_integer:
  assumes f: "faithful rnd" and b: "1 \<le> b" "b \<le> 1000" "b = of_int B"
    and inv: "divider_inv b n p"
  shows "PublishSensorData rnd sd p = PublishSensorData exact sd p"
proof -
  from inv obtain k where base: "avg_interval_base p = b"
    and c: "unat (conter p) \<le> 1049576" and a: "avg_interval p \<le> 1048575 + b"
    and n: "unat (conter p) + k * 1048576 = n"
    and e: "avg_interval p + of_nat (k * 1048576) = of_int (emitted_before b n) * b"
    by (auto simp add: divider_inv_def)
  define A where "A = emitted_before b n * B - int (k * 1048576)"
  have aA: "avg_interval p = of_int A"
    using e unfolding A_def b(3) by (simp add: algebra_simps)
  have "of_nat n - 1 < avg_interval p + of_nat (k * 1048576)"
    unfolding e by (rule emitted_before_bounds(1) [OF b(1)])
  then have "(of_nat (unat (conter p)) :: rat) - 1 < avg_interval p"
    unfolding n [symmetric] by simp
  moreover have "(0 :: rat) \<le> of_nat (unat (conter p))"
    by (rule of_nat_0_le_iff)
  ultimately have lo: "- 1 < avg_interval p"
    by linarith
  have B: "1 \<le> B" "B \<le> 1000"
    using b by simp_all
  have Alo: "- 1 < A" and Ahi: "A \<le> 1048575 + B"
    using lo a unfolding aA b(3) by (simp_all flip: of_int_add)
  have 1: "rnd (avg_interval p + b) = avg_interval p + b"
  proof -
    have "rnd (of_int (A + B)) = of_int (A + B)"
      using Alo Ahi B by (intro faithful_of_int [OF f]) simp
    then show ?thesis unfolding aA b(3) by simp
  qed
  have 2: "rnd (avg_interval p + b - 1048576) = avg_interval p + b - 1048576"
  proof -
    have "rnd (of_int (A + B - 1048576)) = of_int (A + B - 1048576)"
      using Alo Ahi B by (intro faithful_of_int [OF f]) simp
    then show ?thesis unfolding aA b(3) by simp
  qed
  show ?thesis
    unfolding PublishSensorData_def Let_def
    by (simp add: base 1 2 exact_def to_double_ONE_MB)
qed

lemma ticks_integer:
  assumes f: "faithful rnd" and b: "1 \<le> b" "b \<le> 1000" "b = of_int B"
    and p: "avg_interval_base p = b" "conter p = 0" "avg_interval p = 0"
  shows "ticks rnd d p n = ticks exact d p n"
proof (induction n)
  case 0
  show ?case by simp
next
  case (Suc n)
  show ?case
    using PublishSensorData_integer [OF f b divider_inv_ticks [OF b(1,2) p, where d = d and n = n],
        where sd = "d n"]
    by (simp add: Suc)
qed

lemma emits_integer:
  assumes f: "faithful rnd" and b: "1 \<le> b" "b \<le> 1000" "b = of_int B"
    and p: "avg_interval_base p = b" "conter p = 0" "avg_interval p = 0"
  shows "emits rnd d p n = emits exact d p n"
  unfolding emits_def published_def ticks_integer [OF assms]
  using PublishSensorData_integer [OF f b divider_inv_ticks [OF b(1,2) p, where d = d and n = n],
        where sd = "d n"]
  by simp

text \<open>Other interval bases: the phase stays within a fixed range and takes a rounding error
  of at most \<open>2\<^sup>-\<^sup>3\<^sup>1\<close> at each emission.\<close>

lemma emits_iff_phase: "emits rnd d p n = (phase (ticks rnd d p n) \<le> 0)"
  by (auto simp add: emits_def published_def PublishSensorData_def Let_def phase_def)

lemma faithful_bounds:
  assumes "faithful rnd" "\<bar>x\<bar> < 4194304"
  shows "x - 1 / 4294967296 \<le> rnd x" "rnd x \<le> x + 1 / 4294967296"
  using faithful_error [OF assms] by (simp_all only: abs_diff_le_iff)

lemma rounded_inv_step:
  assumes f: "faithful rnd" and b: "1 + 1 / 2000 \<le> b" "b \<le> 1001"
    and inv: "rounded_inv b p"
  shows "rounded_inv b (fst (PublishSensorData rnd sd p))"
    and "0 < phase p \<Longrightarrow> phase (fst (PublishSensorData rnd sd p)) = phase p - 1"
    and "phase p \<le> 0 \<Longrightarrow>
      phase p + b - 1 - 1 / 2147483648 \<le> phase (fst (PublishSensorData rnd sd p)) \<and>
      phase (fst (PublishSensorData rnd sd p)) \<le> phase p + b - 1 + 1 / 2147483648"
proof -
  let ?p' = "fst (PublishSensorData rnd sd p)"
  let ?c = "unat (conter p)"
  let ?a = "avg_interval p"
  from inv have base: "avg_interval_base p = b" and c: "?c \<le> 1049578"
    and lo: "- 1 < phase p" and hi: "?a \<le> 1048576 + b"
    by (simp_all add: rounded_inv_def)
  have c2: "?c \<le> 2000000" using c by simp
  note step = PublishSensorData_step [OF c2, of rnd sd]
  have base': "avg_interval_base ?p' = b"
    by (simp add: PublishSensorData_tables base)
  have td: "to_double (conter p) = of_nat ?c"
    by (simp add: to_double_def)
  have td': "to_double (conter ?p') = of_nat (unat (conter ?p'))"
    by (simp add: to_double_def)
  have cr: "(of_nat ?c :: rat) \<le> 1049578"
  proof -
    have "(of_nat ?c :: rat) \<le> of_nat 1049578"
      using c by (simp only: of_nat_le_iff)
    then show ?thesis by (simp only: of_nat_numeral)
  qed
  have c0: "(0 :: rat) \<le> of_nat ?c"
    by (rule of_nat_0_le_iff)
  have ph: "phase p = ?a - of_nat ?c"
    by (simp only: phase_def td)
  have all: "rounded_inv b ?p' \<and> (0 < phase p \<longrightarrow> phase ?p' = phase p - 1) \<and>
      (phase p \<le> 0 \<longrightarrow> phase p + b - 1 - 1 / 2147483648 \<le> phase ?p' \<and>
        phase ?p' \<le> phase p + b - 1 + 1 / 2147483648)"
  proof (cases "to_double (conter p) < ?a")
    case True
    then have pos: "0 < phase p"
      by (simp add: phase_def)
    have c': "unat (conter ?p') = ?c + 1" and a': "avg_interval ?p' = ?a"
      using step(1,2) True by simp_all
    have ph': "phase ?p' = phase p - 1"
      unfolding phase_def td td' c' a' by simp
    have "(of_nat ?c :: rat) < 1049577"
      using True hi b(2) unfolding td by linarith
    then have "(of_nat ?c :: rat) < of_nat 1049577"
      by (simp only: of_nat_numeral)
    then have "?c < 1049577"
      by (simp only: of_nat_less_iff)
    then have 2: "unat (conter ?p') \<le> 1049578"
      unfolding c' by simp
    have 3: "- 1 < phase ?p'"
      unfolding ph' using pos by simp
    have 4: "avg_interval ?p' \<le> 1048576 + b"
      unfolding a' by (rule hi)
    from base' 2 3 4 pos ph' show ?thesis
      by (simp add: rounded_inv_def)
  next
    case False
    then have np: "phase p \<le> 0"
      by (simp add: phase_def)
    let ?s = "?a + b"
    have "\<bar>?s\<bar> < 4194304"
      unfolding abs_less_iff using lo np cr c0 b unfolding ph by linarith
    note e1 = faithful_bounds [OF f this]
    show ?thesis
    proof (cases "1048576 < ?c + 1")
      case True
      let ?t = "rnd ?s - 1048576"
      have c': "unat (conter ?p') = ?c + 1 - 1048576"
        and a': "avg_interval ?p' = rnd ?t"
        using step(1,2) False True base by simp_all
      have cr': "(of_nat (?c + 1 - 1048576) :: rat) = of_nat ?c + 1 - 1048576"
        using True by (simp add: of_nat_diff)
      have "\<bar>?t\<bar> < 4194304"
        unfolding abs_less_iff using e1 lo np cr c0 b unfolding ph by linarith
      note e2 = faithful_bounds [OF f this]
      have ph': "phase ?p' = rnd ?t - (of_nat ?c + 1 - 1048576)"
        unfolding phase_def td' c' a' cr' ..
      have d: "phase p + b - 1 - 1 / 2147483648 \<le> phase ?p'"
        "phase ?p' \<le> phase p + b - 1 + 1 / 2147483648"
        unfolding ph' ph using e1 e2 by linarith+
      have 2: "unat (conter ?p') \<le> 1049578"
        unfolding c' using c by simp
      have 3: "- 1 < phase ?p'"
        using d lo b(1) by linarith
      have 4: "avg_interval ?p' \<le> 1048576 + b"
        unfolding a' using e1 e2 np cr b unfolding ph by linarith
      from base' 2 3 4 np d show ?thesis
        by (simp add: rounded_inv_def)
    next
      case nr: False
      have c': "unat (conter ?p') = ?c + 1"
        and a': "avg_interval ?p' = rnd ?s"
        using step(1,2) False nr base by simp_all
      have ph': "phase ?p' = rnd ?s - (of_nat ?c + 1)"
        unfolding phase_def td' c' a' by simp
      have d: "phase p + b - 1 - 1 / 2147483648 \<le> phase ?p'"
        "phase ?p' \<le> phase p + b - 1 + 1 / 2147483648"
        unfolding ph' ph using e1 by linarith+
      have 2: "unat (conter ?p') \<le> 1049578"
        unfolding c' using nr by simp
      have 3: "- 1 < phase ?p'"
        using d lo b(1) by linarith
      have "(of_nat ?c :: rat) \<le> of_nat 1048575"
        using nr by (simp only: of_nat_le_iff)
      then have "(of_nat ?c :: rat) \<le> 1048575"
        by (simp only: of_nat_numeral)
      then have 4: "avg_interval ?p' \<le> 1048576 + b"
        unfolding a' using e1 np unfolding ph by linarith
      from base' 2 3 4 np d show ?thesis
        by (simp add: rounded_inv_def)
    qed
  qed
  from all show "rounded_inv b ?p'" by simp
  from all show "0 < phase p \<Longrightarrow> phase ?p' = phase p - 1" by simp
  from all show "phase p \<le> 0 \<Longrightarrow>
      phase p + b - 1 - 1 / 2147483648 \<le> phase ?p' \<and>
      phase ?p' \<le> phase p + b - 1 + 1 / 2147483648" by simp
qed

lemma rounded_inv_ticks:
  assumes f: "faithful rnd" and b: "1 + 1 / 2000 \<le> b" "b \<le> 1001"
    and p: "avg_interval_base p = b" "conter p = 0" "avg_interval p = 0"
  shows "rounded_inv b (ticks rnd d p n)"
proof (induction n)
  case 0
  show ?case
    using b p by (simp add: rounded_inv_def phase_def to_double_def)
next
  case (Suc n)
  from rounded_inv_step(1) [OF f b Suc] show ?case by simp
qed

lemma phase_skips:
  assumes f: "faithful rnd" and b: "1 + 1 / 2000 \<le> b" "b \<le> 1001"
    and p: "avg_interval_base p = b" "conter p = 0" "avg_interval p = 0"
    and "\<forall>m. s \<le> m \<and> m < s + j \<longrightarrow> \<not> emits rnd d p m"
  shows "phase (ticks rnd d p (s + j)) = phase (ticks rnd d p s) - of_nat j"
  using assms(7)
proof (induction j)
  case 0
  show ?case by simp
next
  case (Suc j)
  then have ih: "phase (ticks rnd d p (s + j)) = phase (ticks rnd d p s) - of_nat j"
    by simp
  from Suc.prems have "\<not> emits rnd d p (s + j)"
    by simp
  then have "0 < phase (ticks rnd d p (s + j))"
    by (simp add: emits_iff_phase)
  from rounded_inv_step(2) [OF f b rounded_inv_ticks [OF f b p] this]
  show ?case
    by (simp add: ih)
qed

lemma rounded_gap:
  assumes f: "faithful rnd" and b: "1 + 1 / 2000 \<le> b" "b \<le> 1001"
    and p: "avg_interval_base p = b" "conter p = 0" "avg_interval p = 0"
    and ik: "i < k" and ei: "emits rnd d p i" and ek: "emits rnd d p k"
    and none: "\<forall>m. i < m \<and> m < k \<longrightarrow> \<not> emits rnd d p m"
  shows "b - 1 - 1 / 2147483648 < of_nat (k - i)" "of_nat (k - i) < b + 1 + 1 / 2147483648"
proof -
  note inv = rounded_inv_ticks [OF f b p, where d = d]
  have pi: "phase (ticks rnd d p i) \<le> 0" and pi': "- 1 < phase (ticks rnd d p i)"
    using ei inv [of i] by (simp_all add: emits_iff_phase rounded_inv_def)
  have pk: "phase (ticks rnd d p k) \<le> 0" and pk': "- 1 < phase (ticks rnd d p k)"
    using ek inv [of k] by (simp_all add: emits_iff_phase rounded_inv_def)
  from rounded_inv_step(3) [OF f b inv pi, where sd = "d i"]
  have d: "phase (ticks rnd d p i) + b - 1 - 1 / 2147483648 \<le> phase (ticks rnd d p (Suc i))"
    "phase (ticks rnd d p (Suc i)) \<le> phase (ticks rnd d p i) + b - 1 + 1 / 2147483648"
    by simp_all
  have "\<forall>m. Suc i \<le> m \<and> m < Suc i + (k - Suc i) \<longrightarrow> \<not> emits rnd d p m"
    using none ik by auto
  from phase_skips [OF f b p this]
  have k: "phase (ticks rnd d p k) = phase (ticks rnd d p (Suc i)) - of_nat (k - Suc i)"
    using ik by simp
  have "k - i = Suc (k - Suc i)"
    using ik by simp
  then have z: "(of_nat (k - i) :: rat) = of_nat (k - Suc i) + 1"
    by (simp only: of_nat_Suc)
  show "b - 1 - 1 / 2147483648 < of_nat (k - i)"
    unfolding z using d pi' pk k by linarith
  show "of_nat (k - i) < b + 1 + 1 / 2147483648"
    unfolding z using d pi pk' k by linarith
qed

lemma frq_nat:
  assumes "frq \<noteq> 0" "frq \<le> MAX_SIM_FRQ"
  shows "1 \<le> unat frq" "unat frq \<le> 1000"
    "(MAX_SIM_FRQ mod frq = 0) = (1000 mod unat frq = 0)"
proof -
  have "unat frq \<noteq> 0"
    using assms(1) by (simp add: unat_eq_0)
  then show "1 \<le> unat frq" by simp
  show "unat frq \<le> 1000"
    using assms(2) by (simp add: word_le_nat_alt MAX_SIM_FRQ_def)
  have "unat (MAX_SIM_FRQ mod frq) = 1000 mod unat frq"
    by (simp add: unat_mod MAX_SIM_FRQ_def)
  then show "(MAX_SIM_FRQ mod frq = 0) = (1000 mod unat frq = 0)"
    by (metis unat_eq_0)
qed

lemma interval_base_split:
  fixes f :: nat
  assumes "1 \<le> f"
  shows "(1000 :: rat) / of_nat f = of_nat (1000 div f) + of_nat (1000 mod f) / of_nat f"
proof -
  have f: "(of_nat f :: rat) \<noteq> 0"
    using assms by simp
  have "(of_nat 1000 :: rat) = of_nat (1000 div f * f + 1000 mod f)"
    by (simp only: div_mult_mod_eq)
  also have "\<dots> = of_nat (1000 div f) * of_nat f + of_nat (1000 mod f)"
    by (simp only: of_nat_add of_nat_mult)
  finally have "(1000 :: rat) = of_nat (1000 div f) * of_nat f + of_nat (1000 mod f)"
    by (simp only: of_nat_numeral)
  then have "(1000 :: rat) / of_nat f
      = (of_nat (1000 div f) * of_nat f + of_nat (1000 mod f)) / of_nat f"
    by (rule arg_cong)
  also have "\<dots> = of_nat (1000 div f) + of_nat (1000 mod f) / of_nat f"
    using f by (simp add: add_divide_distrib)
  finally show ?thesis .
qed

lemma interval_base_integer:
  assumes "frq \<noteq> 0" "frq \<le> MAX_SIM_FRQ" "MAX_SIM_FRQ mod frq = 0"
  shows "1000 / to_double frq = of_int (int (1000 div unat frq))"
proof -
  note n = frq_nat [OF assms(1,2)]
  have "1000 mod unat frq = 0"
    using assms(3) n(3) by simp
  with interval_base_split [OF n(1)] show ?thesis
    by (simp add: to_double_def)
qed

lemma interval_base_fraction:
  assumes "frq \<noteq> 0" "frq \<le> MAX_SIM_FRQ" "MAX_SIM_FRQ mod frq \<noteq> 0"
  shows "of_int \<lfloor>1000 / to_double frq\<rfloor> + 1 / 1000 \<le> 1000 / to_double frq"
    and "1000 / to_double frq \<le> of_int \<lfloor>1000 / to_double frq\<rfloor> + 1 - 1 / 1000"
    and "\<lceil>1000 / to_double frq\<rceil> = \<lfloor>1000 / to_double frq\<rfloor> + 1"
proof -
  note n = frq_nat [OF assms(1,2)]
  let ?f = "unat frq"
  let ?q = "1000 div ?f" and ?r = "1000 mod ?f"
  let ?B = "1000 / to_double frq"
  have B: "?B = of_nat ?q + of_nat ?r / of_nat ?f"
    unfolding to_double_def by (rule interval_base_split [OF n(1)])
  have fpos: "(0 :: rat) < of_nat ?f" and f1000: "(of_nat ?f :: rat) \<le> 1000"
  proof -
    show "(0 :: rat) < of_nat ?f"
      using n(1) by (simp only: of_nat_0_less_iff)
    have "(of_nat ?f :: rat) \<le> of_nat 1000"
      using n(2) by (simp only: of_nat_le_iff)
    then show "(of_nat ?f :: rat) \<le> 1000"
      by (simp only: of_nat_numeral)
  qed
  have "1 \<le> ?r"
    using assms(3) n(3) by simp
  then have "(of_nat 1 :: rat) \<le> of_nat ?r"
    by (simp only: of_nat_le_iff)
  then have r1: "(1 :: rat) \<le> of_nat ?r"
    by (simp only: of_nat_1)
  have "?r + 1 \<le> ?f"
    using n(1) by (simp add: Suc_le_eq)
  then have "(of_nat (?r + 1) :: rat) \<le> of_nat ?f"
    by (simp only: of_nat_le_iff)
  then have r2: "(of_nat ?r :: rat) + 1 \<le> of_nat ?f"
    by (simp only: of_nat_add of_nat_1)
  have lo: "1 / 1000 \<le> (of_nat ?r :: rat) / of_nat ?f"
  proof -
    have "1 / 1000 \<le> 1 / (of_nat ?f :: rat)"
      using fpos f1000 by (simp add: field_simps)
    also have "\<dots> \<le> of_nat ?r / of_nat ?f"
      using r1 fpos by (simp add: divide_right_mono)
    finally show ?thesis .
  qed
  have hi: "(of_nat ?r :: rat) / of_nat ?f \<le> 1 - 1 / 1000"
  proof -
    have "(of_nat ?r :: rat) / of_nat ?f \<le> (of_nat ?f - 1) / of_nat ?f"
      using r2 fpos by (intro divide_right_mono) simp_all
    also have "\<dots> = 1 - 1 / of_nat ?f"
      using fpos by (simp add: diff_divide_distrib)
    also have "\<dots> \<le> 1 - 1 / 1000"
      using fpos f1000 by (simp add: field_simps)
    finally show ?thesis .
  qed
  have qq: "(of_int (int ?q) :: rat) = of_nat ?q"
    "(of_int (int ?q + 1) :: rat) = of_nat ?q + 1"
    by simp_all
  have fl: "\<lfloor>?B\<rfloor> = int ?q"
  proof (rule floor_unique)
    show "of_int (int ?q) \<le> ?B"
      unfolding B qq using lo by linarith
    show "?B < of_int (int ?q) + 1"
      unfolding B qq using hi by linarith
  qed
  show "of_int \<lfloor>?B\<rfloor> + 1 / 1000 \<le> ?B"
    unfolding fl qq unfolding B using lo by linarith
  show "?B \<le> of_int \<lfloor>?B\<rfloor> + 1 - 1 / 1000"
    unfolding fl qq unfolding B using hi by linarith
  show "\<lceil>?B\<rceil> = \<lfloor>?B\<rfloor> + 1"
    unfolding fl
  proof (rule ceiling_unique)
    show "of_int (int ?q + 1) - 1 < ?B"
      unfolding B qq using lo by linarith
    show "?B \<le> of_int (int ?q + 1)"
      unfolding B qq using hi by linarith
  qed
qed

lemma Initialize_faithful_integer:
  assumes f: "faithful rnd" and init: "Initialize rnd mj ret frq joints = Inr p"
    and d: "MAX_SIM_FRQ mod frq = 0"
  shows "Initialize exact mj ret frq joints = Inr p"
    and "emits rnd d p n = emits exact d p n"
    and "ticks rnd d p n = ticks exact d p n"
proof -
  from Initialize_Inr [OF init] obtain base where c: "CheckFrequency rnd frq = Inr base"
    and p: "avg_interval_base p = base" "conter p = 0" "avg_interval p = 0"
    by auto
  note v = CheckFrequency_Inr [OF c]
  note B = interval_base_integer [OF v(1,2) d]
  note bb = interval_base_bounds [OF v(1,2)]
  have "\<bar>int (1000 div unat frq)\<bar> < 4194304"
    by (simp add: div_le_dividend [THEN le_less_trans])
  from faithful_of_int [OF f this] have base: "base = 1000 / to_double frq"
    unfolding v(3) B .
  have "CheckFrequency exact frq = Inr (exact (1000 / to_double frq))"
    by (rule CheckFrequency_divisor [OF v(2,1) d refl])
  then have "CheckFrequency exact frq = CheckFrequency rnd frq"
    unfolding c base by (simp add: exact_def)
  then show "Initialize exact mj ret frq joints = Inr p"
    using init by (simp add: Initialize_eq)
  have b: "1 \<le> base" "base \<le> 1000" "base = of_int (int (1000 div unat frq))"
    using bb B unfolding base by simp_all
  show "emits rnd d p n = emits exact d p n"
    by (rule emits_integer [OF f b p])
  show "ticks rnd d p n = ticks exact d p n"
    by (rule ticks_integer [OF f b p])
qed

lemma between_floor_ceiling_margin:
  fixes B :: rat and z :: int
  assumes "of_int \<lfloor>B\<rfloor> + 1 / 1000 \<le> B" "B \<le> of_int \<lfloor>B\<rfloor> + 1 - 1 / 1000"
    and "\<lceil>B\<rceil> = \<lfloor>B\<rfloor> + 1"
    and "B - 1 - 1 / 1000 < of_int z" "of_int z < B + 1 + 1 / 1000"
  shows "z = \<lfloor>B\<rfloor> \<or> z = \<lceil>B\<rceil>"
proof -
  have "(of_int (\<lfloor>B\<rfloor> - 1) :: rat) < of_int z"
    using assms(1,4) by simp
  then have 1: "\<lfloor>B\<rfloor> - 1 < z"
    by (simp only: of_int_less_iff)
  have "(of_int z :: rat) < of_int (\<lfloor>B\<rfloor> + 2)"
    using assms(2,5) by simp
  then have 2: "z < \<lfloor>B\<rfloor> + 2"
    by (simp only: of_int_less_iff)
  from 1 2 show ?thesis
    unfolding assms(3) by linarith
qed

lemma emission_gaps_faithful:
  assumes f: "faithful rnd" and init: "Initialize rnd mj ret frq joints = Inr p"
    and ik: "i < k" and ei: "emits rnd d p i" and ek: "emits rnd d p k"
    and none: "\<forall>m. i < m \<and> m < k \<longrightarrow> \<not> emits rnd d p m"
  shows "int (k - i) = \<lfloor>1000 / to_double frq\<rfloor> \<or> int (k - i) = \<lceil>1000 / to_double frq\<rceil>"
proof (cases "MAX_SIM_FRQ mod frq = 0")
  case True
  note e = Initialize_faithful_integer [OF f init True]
  show ?thesis
    using emission_gaps_exact [OF e(1) ik, of d] ei ek none
    unfolding e(2) by simp
next
  case False
  from Initialize_Inr [OF init] obtain base where c: "CheckFrequency rnd frq = Inr base"
    and p: "avg_interval_base p = base" "conter p = 0" "avg_interval p = 0"
    by auto
  note v = CheckFrequency_Inr [OF c]
  let ?B = "1000 / to_double frq"
  note fr = interval_base_fraction [OF v(1,2) False]
  note bb = interval_base_bounds [OF v(1,2)]
  have "\<bar>?B\<bar> < 4194304"
    using bb by (simp add: abs_less_iff)
  note e = faithful_bounds [OF f this, folded v(3)]
  have "1 \<le> \<lfloor>?B\<rfloor>"
    using bb(1) by (simp add: le_floor_iff)
  then have "(of_int 1 :: rat) \<le> of_int \<lfloor>?B\<rfloor>"
    by (simp only: of_int_le_iff)
  then have "1 + 1 / 1000 \<le> ?B"
    using fr(1) by linarith
  then have b: "1 + 1 / 2000 \<le> base" "base \<le> 1001"
    using e bb(2) by linarith+
  note g = rounded_gap [OF f b p ik ei ek none]
  have z: "(of_int (int (k - i)) :: rat) = of_nat (k - i)"
    by simp
  show ?thesis
  proof (rule between_floor_ceiling_margin [OF fr])
    show "?B - 1 - 1 / 1000 < of_int (int (k - i))"
      unfolding z using g(1) e by linarith
    show "of_int (int (k - i)) < ?B + 1 + 1 / 1000"
      unfolding z using g(2) e by linarith
  qed
qed






lemma binary64_7_idem: "binary64 (0 + 5026338869833143 / 35184372088832) = 5026338869833143 / 35184372088832"
  by code_simp

lemma first_gap_ticks:
  assumes p: "conter p = 0" "avg_interval p = 0" and b: "rnd (0 + avg_interval_base p) = b"
    and j: "j \<le> 1000" "j = 0 \<or> of_nat j < b"
  shows "ticks rnd d p (Suc j) = p\<lparr>conter := of_nat (Suc j), avg_interval := b\<rparr>"
  using j
proof (induction j)
  case 0
  show ?case
    using p b by (simp add: PublishSensorData_def Let_def to_double_def ONE_MB_def)
next
  case (Suc j)
  have "(of_nat j :: rat) < of_nat (Suc j)"
    by (simp only: of_nat_less_iff)
  with Suc.prems have jb: "j = 0 \<or> of_nat j < b"
    by auto
  from Suc.prems have j1000: "j \<le> 1000"
    by simp
  note ih = Suc.IH [OF j1000 jb]
  have u: "unat (of_nat (Suc j) :: 32 word) = Suc j"
    using j1000 by (simp add: unat_of_nat del: of_nat_Suc)
  have lt: "to_double (of_nat (Suc j)) < b"
    unfolding to_double_def u using Suc.prems by simp
  have w: "(of_nat (Suc (Suc j)) :: 32 word) = of_nat (Suc j) + 1"
    using of_nat_Suc [where 'a = "32 word", of "Suc j"] by (simp only: add.commute)
  show ?case
    unfolding ticks.simps(2) [of _ _ _ "Suc j"] ih
    using lt by (simp add: PublishSensorData_def Let_def w del: of_nat_Suc)
qed

lemma first_gap_emits:
  assumes p: "conter p = 0" "avg_interval p = 0" and b: "rnd (0 + avg_interval_base p) = b"
    and j: "j \<le> 1000" "j = 0 \<or> of_nat j < b"
  shows "emits rnd d p (Suc j) = (b \<le> of_nat (Suc j))"
proof -
  have "unat (of_nat (Suc j) :: 32 word) = Suc j"
    using j(1) by (simp add: unat_of_nat del: of_nat_Suc)
  then have "to_double (of_nat (Suc j)) = of_nat (Suc j)"
    by (simp only: to_double_def)
  then show ?thesis
    unfolding emits_iff_phase first_gap_ticks [where rnd = rnd and p = p, OF assms] phase_def
    by simp
qed

lemma Initialize_binary64_7:
  "Initialize binary64 (\<lambda>s. - 1) True 7 [] =
     Inr \<lparr>channel_frq = 7, avg_interval_base = 5026338869833143 / 35184372088832,
          avg_interval = 0, conter = 0, joint_num = 0, sensor_addr_vec = [], name_vec = []\<rparr>"
  by (simp add: Initialize_eq CheckFrequency_binary64_7 base_7)

































section \<open>The rate divider: the claims\<close>




text \<open>C2: after a successful initialisation, the number of ticks from one emission of
  \<^verbatim>\<open>PublishSensorData\<close> to the next is \<open>\<lfloor>1000 / targetFrequency\<rfloor>\<close> or
  \<open>\<lceil>1000 / targetFrequency\<rceil>\<close>, in double arithmetic as in exact arithmetic, at any point of
  a run of any length.\<close>

theorem emission_gaps_floor_or_ceiling:
  assumes "rnd = exact \<or> rnd = binary64"
    and "Initialize rnd mj ret frq joints = Inr p"
    and "i < k" and "emits rnd d p i" and "emits rnd d p k"
    and "\<forall>m. i < m \<and> m < k \<longrightarrow> \<not> emits rnd d p m"
  shows "int (k - i) = \<lfloor>1000 / to_double frq\<rfloor> \<or> int (k - i) = \<lceil>1000 / to_double frq\<rceil>"
proof -
  have "faithful rnd"
    using assms(1) faithful_exact faithful_binary64 by blast
  from emission_gaps_faithful [OF this assms(2-6)] show ?thesis .
qed

theorem emission_gaps_floor_or_ceiling_witness:
  "(binary64 = exact \<or> binary64 = binary64)
   \<and> Initialize binary64 (\<lambda>s. - 1) True 7 [] =
     Inr \<lparr>channel_frq = 7, avg_interval_base = 5026338869833143 / 35184372088832,
          avg_interval = 0, conter = 0, joint_num = 0, sensor_addr_vec = [], name_vec = []\<rparr>
   \<and> emits binary64 (\<lambda>n i. 0)
        \<lparr>channel_frq = 7, avg_interval_base = 5026338869833143 / 35184372088832,
         avg_interval = 0, conter = 0, joint_num = 0, sensor_addr_vec = [], name_vec = []\<rparr> 0
   \<and> emits binary64 (\<lambda>n i. 0)
        \<lparr>channel_frq = 7, avg_interval_base = 5026338869833143 / 35184372088832,
         avg_interval = 0, conter = 0, joint_num = 0, sensor_addr_vec = [], name_vec = []\<rparr> 143
   \<and> filter (emits binary64 (\<lambda>n i. 0)
        \<lparr>channel_frq = 7, avg_interval_base = 5026338869833143 / 35184372088832,
         avg_interval = 0, conter = 0, joint_num = 0, sensor_addr_vec = [], name_vec = []\<rparr>)
        [1..<143] = []
   \<and> (int (143 - 0) = \<lfloor>1000 / to_double 7\<rfloor> \<or> int (143 - 0) = \<lceil>1000 / to_double 7\<rceil>)"
proof -
  let ?p = "\<lparr>channel_frq = 7, avg_interval_base = 5026338869833143 / 35184372088832,
          avg_interval = 0, conter = 0, joint_num = 0, sensor_addr_vec = [], name_vec = []\<rparr>"
  let ?d = "\<lambda>(n::nat) (i::nat). 0 :: rat"
  let ?b = "5026338869833143 / 35184372088832 :: rat"
  have p: "conter ?p = 0" "avg_interval ?p = 0"
    by simp_all
  have b: "binary64 (0 + avg_interval_base ?p) = ?b"
    using binary64_7_idem by simp
  have h: "binary64 = exact \<or> binary64 = binary64"
    by simp
  have e0: "emits binary64 ?d ?p 0"
    by (simp add: emits_iff_phase phase_def to_double_def)
  have later: "emits binary64 ?d ?p (Suc j) = (?b \<le> of_nat (Suc j))" if "j \<le> 142" for j
  proof -
    from that have "(of_nat j :: rat) \<le> of_nat 142"
      by (simp only: of_nat_le_iff)
    then have "(of_nat j :: rat) < ?b"
      by simp
    moreover from that have "j \<le> 1000"
      by simp
    ultimately show ?thesis
      by (intro first_gap_emits [where rnd = binary64 and p = ?p, OF p b]) simp_all
  qed
  have e143: "emits binary64 ?d ?p 143"
    using later [of 142] by simp
  have none: "\<not> emits binary64 ?d ?p m" if "0 < m \<and> m < 143" for m
  proof -
    from that obtain j where m: "m = Suc j" and j: "j \<le> 141"
      by (cases m) simp_all
    from j have "Suc j \<le> 142"
      by simp
    then have "(of_nat (Suc j) :: rat) \<le> of_nat 142"
      by (simp only: of_nat_le_iff)
    then have "\<not> ?b \<le> of_nat (Suc j)"
      by simp
    with later [of j] j show ?thesis
      unfolding m by simp
  qed
  then have f: "filter (emits binary64 ?d ?p) [1..<143] = []"
    by (auto simp add: filter_empty_conv)
  have lt: "(0::nat) < 143"
    by simp
  from none have "\<forall>m. 0 < m \<and> m < 143 \<longrightarrow> \<not> emits binary64 ?d ?p m"
    by blast
  from emission_gaps_floor_or_ceiling [OF h Initialize_binary64_7 lt e0 e143 this]
  have "int (143 - 0) = \<lfloor>1000 / to_double 7\<rfloor> \<or> int (143 - 0) = \<lceil>1000 / to_double 7\<rceil>" .
  with h Initialize_binary64_7 e0 e143 f show ?thesis
    by (intro conjI)
qed




end
